theory Spec2Isabelle
  imports Main "HOL-Library.Word"
begin

section \<open>The location cache of the edge controller (manager/location.go)\<close>

text \<open>
  The cache keeps four \<^verbatim>\<open>sync.Map\<close>s: the set of edge nodes, the nodes per config
  map, the nodes per secret, and the last endpoints object per key. Every map is used
  with one type of value only, so each is modelled as a typed partial map and the type
  assertions of the source (\<^verbatim>\<open>value.([]string)\<close>, \<^verbatim>\<open>eps.(v1.Endpoints)\<close>) always
  succeed. The Kubernetes object types (\<^verbatim>\<open>v1.Pod\<close>, \<^verbatim>\<open>v1.Endpoints\<close>) are declared
  in \<^verbatim>\<open>k8s.io/api/core/v1\<close>, outside this repository; the records below hold the
  fields that the functions of location.go read.
\<close>

subsection \<open>Pods\<close>

text \<open>
  A nil pointer is \<open>None\<close>. Where the code reads only the name behind a pointer
  (\<^verbatim>\<open>v.ConfigMap.Name\<close>, \<^verbatim>\<open>v.Secret.SecretName\<close>, \<^verbatim>\<open>ef.SecretRef.Name\<close>, ...)
  the pointer is modelled as the optional name.
\<close>

record VolumeProjection =
  projConfigMap :: "string option"
  projSecret :: "string option"

record Volume =
  volConfigMap :: "string option"
  volSecret :: "string option"
  volProjected :: "VolumeProjection list option"

record EnvFromSource =
  ConfigMapRef :: "string option"
  SecretRef :: "string option"

record EnvVarSource =
  ConfigMapKeyRef :: "string option"
  SecretKeyRef :: "string option"

record EnvVar =
  ValueFrom :: "EnvVarSource option"

record Container =
  EnvFrom :: "EnvFromSource list"
  Env :: "EnvVar list"

record Pod =
  podNamespace :: string
  Volumes :: "Volume list"
  Containers :: "Container list"
  ImagePullSecrets :: "string list"
  NodeName :: string

subsection \<open>PodConfigMapsAndSecrets\<close>

text \<open>
  The function appends to two result slices, \<^verbatim>\<open>configMaps\<close> and \<^verbatim>\<open>secrets\<close>, in
  nested loops. Each loop is a recursive function over the list it ranges over, passing
  the pair of the two results along.
\<close>

type_synonym names = "string list \<times> string list"

text \<open>One source of a projected volume: the \<^verbatim>\<open>switch\<close> takes the first case that holds.\<close>

definition projectedSource :: "VolumeProjection \<Rightarrow> names \<Rightarrow> names" where
  "projectedSource source acc =
     (case acc of (configMaps, secrets) \<Rightarrow>
        (case projConfigMap source of
           Some n \<Rightarrow> (configMaps @ [n], secrets)
         | None \<Rightarrow>
            (case projSecret source of
               Some n \<Rightarrow> (configMaps, secrets @ [n])
             | None \<Rightarrow> (configMaps, secrets))))"

fun projectedSources :: "VolumeProjection list \<Rightarrow> names \<Rightarrow> names" where
  "projectedSources [] acc = acc"
| "projectedSources (source # rest) acc = projectedSources rest (projectedSource source acc)"

definition volume :: "Volume \<Rightarrow> names \<Rightarrow> names" where
  "volume v acc =
     (let acc1 = (case volConfigMap v of
                    Some n \<Rightarrow> (fst acc @ [n], snd acc)
                  | None \<Rightarrow> acc);
          acc2 = (case volSecret v of
                    Some n \<Rightarrow> (fst acc1, snd acc1 @ [n])
                  | None \<Rightarrow> acc1)
      in (case volProjected v of
            Some sources \<Rightarrow> projectedSources sources acc2
          | None \<Rightarrow> acc2))"

fun volumes :: "Volume list \<Rightarrow> names \<Rightarrow> names" where
  "volumes [] acc = acc"
| "volumes (v # rest) acc = volumes rest (volume v acc)"

definition envFromSource :: "EnvFromSource \<Rightarrow> names \<Rightarrow> names" where
  "envFromSource ef acc =
     (let acc1 = (case ConfigMapRef ef of
                    Some n \<Rightarrow> (fst acc @ [n], snd acc)
                  | None \<Rightarrow> acc)
      in (case SecretRef ef of
            Some n \<Rightarrow> (fst acc1, snd acc1 @ [n])
          | None \<Rightarrow> acc1))"

fun envFromSources :: "EnvFromSource list \<Rightarrow> names \<Rightarrow> names" where
  "envFromSources [] acc = acc"
| "envFromSources (ef # rest) acc = envFromSources rest (envFromSource ef acc)"

text \<open>One \<^verbatim>\<open>env\<close> entry: \<^verbatim>\<open>continue\<close> on a nil \<^verbatim>\<open>ValueFrom\<close>, then \<^verbatim>\<open>if ... else if\<close>.\<close>

definition envVar :: "EnvVar \<Rightarrow> names \<Rightarrow> names" where
  "envVar e acc =
     (case ValueFrom e of
        None \<Rightarrow> acc
      | Some vf \<Rightarrow>
         (case ConfigMapKeyRef vf of
            Some n \<Rightarrow> (fst acc @ [n], snd acc)
          | None \<Rightarrow>
             (case SecretKeyRef vf of
                Some n \<Rightarrow> (fst acc, snd acc @ [n])
              | None \<Rightarrow> acc)))"

fun envVars :: "EnvVar list \<Rightarrow> names \<Rightarrow> names" where
  "envVars [] acc = acc"
| "envVars (e # rest) acc = envVars rest (envVar e acc)"

fun containers :: "Container list \<Rightarrow> names \<Rightarrow> names" where
  "containers [] acc = acc"
| "containers (s # rest) acc = containers rest (envVars (Env s) (envFromSources (EnvFrom s) acc))"

fun imagePullSecrets :: "string list \<Rightarrow> names \<Rightarrow> names" where
  "imagePullSecrets [] acc = acc"
| "imagePullSecrets (s # rest) acc = imagePullSecrets rest (fst acc, snd acc @ [s])"

definition PodConfigMapsAndSecrets :: "Pod \<Rightarrow> names" where
  "PodConfigMapsAndSecrets pod =
     imagePullSecrets (ImagePullSecrets pod)
       (containers (Containers pod) (volumes (Volumes pod) ([], [])))"

subsection \<open>Slices and their backing arrays\<close>

text \<open>
  A Go slice is a header (pointer to a backing array, length, capacity); copying or
  returning a slice copies the header and shares the array. The store of backing arrays
  is a list, an address is an index into it, and allocation appends a new array. A slice
  made by this code starts at the first slot of its array, so the capacity is the length
  of the array. \<open>NilSlice\<close> is the nil slice.
\<close>

datatype slice = NilSlice | Slice (ptr: nat) (len: nat) (cap: nat)

type_synonym arrays = "string list list"

text \<open>The elements a slice shows: what \<^verbatim>\<open>range\<close> visits and \<^verbatim>\<open>s[i]\<close> reads.\<close>

fun elems :: "'a list list \<Rightarrow> slice \<Rightarrow> 'a list" where
  "elems h NilSlice = []"
| "elems h (Slice p n c) = take n (h ! p)"

text \<open>
  \<^verbatim>\<open>append(s, x)\<close>: with room left the element is written into the shared array in
  place; otherwise a new array is allocated and the elements are copied. The capacity of
  the new array is the runtime's choice: \<open>grow\<close> maps the old capacity to the one the
  runtime would like, and the array has at least one slot more than the old length.
  Unused slots hold the zero value, the empty string.
\<close>

fun appendStr :: "(nat \<Rightarrow> nat) \<Rightarrow> arrays \<Rightarrow> slice \<Rightarrow> string \<Rightarrow> arrays \<times> slice" where
  "appendStr grow h NilSlice x =
     (h @ [x # replicate (max 1 (grow 0) - 1) []], Slice (length h) 1 (max 1 (grow 0)))"
| "appendStr grow h (Slice p n c) x =
     (if n < c then (h[p := (h ! p)[n := x]], Slice p (Suc n) c)
      else (h @ [take n (h ! p) @ x # replicate (max (Suc n) (grow c) - Suc n) []],
            Slice (length h) (Suc n) (max (Suc n) (grow c))))"

text \<open>
  \<^verbatim>\<open>s[i] = x\<close> by a holder of the slice \<open>s\<close>: a write into the backing array; an
  index out of range panics (\<open>None\<close>).
\<close>

fun setElem :: "'a list list \<Rightarrow> slice \<Rightarrow> nat \<Rightarrow> 'a \<Rightarrow> 'a list list option" where
  "setElem h NilSlice i x = None"
| "setElem h (Slice p n c) i x = (if i < n then Some (h[p := (h ! p)[i := x]]) else None)"

subsection \<open>The cache\<close>

text \<open>
  \<^verbatim>\<open>v1.Endpoints\<close> embeds \<^verbatim>\<open>ObjectMeta\<close> and has the slice \<^verbatim>\<open>Subsets\<close>. Of the metadata,
  the fields that location.go names are modelled one by one, \<^verbatim>\<open>Labels\<close> stands for the
  maps of the metadata, and \<open>OtherMeta\<close> holds the remaining fields as one value of a
  type \<open>'m\<close>. A Go map is a reference: \<open>None\<close> is the nil map, \<open>Some a\<close> the map
  object at address \<open>a\<close>.
\<close>

record 'm ObjectMeta =
  Name :: string
  Namespace :: string
  ResourceVersion :: string
  Generation :: "64 word"
  Labels :: "nat option"
  Annotations :: "nat option"
  OtherMeta :: 'm

record 'm Endpoints =
  ObjectMeta :: "'m ObjectMeta"
  Subsets :: slice

text \<open>
  The objects an endpoints value points to: the backing arrays of \<^verbatim>\<open>[]EndpointSubset\<close>
  slices (an \<^verbatim>\<open>EndpointSubset\<close> is a value of a type \<open>'s\<close>) and the map objects.
\<close>

record 's objects =
  subsetArrays :: "'s list list"
  stringMaps :: "(string \<rightharpoonup> string) list"

record 'm LocationCache =
  EdgeNodes :: "string \<rightharpoonup> unit"
  configMapNode :: "string \<rightharpoonup> slice"
  secretNode :: "string \<rightharpoonup> slice"
  endpoints :: "string \<rightharpoonup> 'm Endpoints"

text \<open>The zero value of the struct: four empty maps.\<close>

definition emptyCache :: "'m LocationCache" where
  "emptyCache =
     \<lparr>EdgeNodes = Map.empty, configMapNode = Map.empty, secretNode = Map.empty,
      endpoints = Map.empty\<rparr>"

text \<open>\<^verbatim>\<open>fmt.Sprintf("%s/%s", namespace, name)\<close>\<close>

definition mapKey :: "string \<Rightarrow> string \<Rightarrow> string" where
  "mapKey namespace name = namespace @ ''/'' @ name"

subsection \<open>newNodes and AddOrUpdatePod\<close>

text \<open>The loop of \<^verbatim>\<open>newNodes\<close>: true when it reaches \<^verbatim>\<open>return oldNodes\<close>.\<close>

fun hasNode :: "string list \<Rightarrow> string \<Rightarrow> bool" where
  "hasNode [] node = False"
| "hasNode (n # rest) node = (if n = node then True else hasNode rest node)"

definition newNodes :: "(nat \<Rightarrow> nat) \<Rightarrow> arrays \<Rightarrow> slice \<Rightarrow> string \<Rightarrow> arrays \<times> slice" where
  "newNodes grow h oldNodes node =
     (if hasNode (elems h oldNodes) node then (h, oldNodes) else appendStr grow h oldNodes node)"

text \<open>
  The body of each loop of \<^verbatim>\<open>AddOrUpdatePod\<close>, for one key: \<^verbatim>\<open>Load\<close>, then
  \<^verbatim>\<open>newNodes\<close> or the one-element literal \<^verbatim>\<open>[]string{pod.Spec.NodeName}\<close> (a fresh
  array of capacity 1), then \<^verbatim>\<open>Store\<close>.
\<close>

definition addNode ::
  "(nat \<Rightarrow> nat) \<Rightarrow> string \<Rightarrow> arrays \<times> (string \<rightharpoonup> slice) \<Rightarrow> string
   \<Rightarrow> arrays \<times> (string \<rightharpoonup> slice)" where
  "addNode grow node st k =
     (case st of (h, m) \<Rightarrow>
        (case m k of
           Some nodes \<Rightarrow>
             (case newNodes grow h nodes node of (h', s) \<Rightarrow> (h', m(k \<mapsto> s)))
         | None \<Rightarrow> (h @ [[node]], m(k \<mapsto> Slice (length h) 1 1))))"

text \<open>
  The middle of that loop body, between \<^verbatim>\<open>Load\<close> and \<^verbatim>\<open>Store\<close>: from what \<^verbatim>\<open>Load\<close>
  returned to the slice that is stored. \<open>addNode\<close> is \<^verbatim>\<open>Load\<close>, this, and \<^verbatim>\<open>Store\<close>.
\<close>

definition slotAdd :: "(nat \<Rightarrow> nat) \<Rightarrow> string \<Rightarrow> arrays \<Rightarrow> slice option \<Rightarrow> arrays \<times> slice" where
  "slotAdd grow node h so =
     (case so of Some nodes \<Rightarrow> newNodes grow h nodes node
      | None \<Rightarrow> (h @ [[node]], Slice (length h) 1 1))"

fun addNodes ::
  "(nat \<Rightarrow> nat) \<Rightarrow> string \<Rightarrow> string \<Rightarrow> string list \<Rightarrow> arrays \<times> (string \<rightharpoonup> slice)
   \<Rightarrow> arrays \<times> (string \<rightharpoonup> slice)" where
  "addNodes grow namespace node [] st = st"
| "addNodes grow namespace node (c # rest) st =
     addNodes grow namespace node rest (addNode grow node st (mapKey namespace c))"

definition AddOrUpdatePod ::
  "(nat \<Rightarrow> nat) \<Rightarrow> arrays \<times> 'm LocationCache \<Rightarrow> Pod \<Rightarrow> arrays \<times> 'm LocationCache" where
  "AddOrUpdatePod grow st pod =
     (case st of (h, lc) \<Rightarrow>
        (case PodConfigMapsAndSecrets pod of (configMaps, secrets) \<Rightarrow>
           (case addNodes grow (podNamespace pod) (NodeName pod) configMaps
                   (h, configMapNode lc) of (h1, cm) \<Rightarrow>
              (case addNodes grow (podNamespace pod) (NodeName pod) secrets
                      (h1, secretNode lc) of (h2, sm) \<Rightarrow>
                 (h2, lc\<lparr>configMapNode := cm, secretNode := sm\<rparr>)))))"

subsection \<open>Queries and deletions\<close>

text \<open>The named result \<^verbatim>\<open>nodes\<close> is nil when the key is absent.\<close>

definition ConfigMapNodes :: "'m LocationCache \<Rightarrow> string \<Rightarrow> string \<Rightarrow> slice" where
  "ConfigMapNodes lc namespace name =
     (case configMapNode lc (mapKey namespace name) of Some nodes \<Rightarrow> nodes | None \<Rightarrow> NilSlice)"

definition SecretNodes :: "'m LocationCache \<Rightarrow> string \<Rightarrow> string \<Rightarrow> slice" where
  "SecretNodes lc namespace name =
     (case secretNode lc (mapKey namespace name) of Some nodes \<Rightarrow> nodes | None \<Rightarrow> NilSlice)"

definition IsEdgeNode :: "'m LocationCache \<Rightarrow> string \<Rightarrow> bool" where
  "IsEdgeNode lc nodeName = (case EdgeNodes lc nodeName of Some _ \<Rightarrow> True | None \<Rightarrow> False)"

definition UpdateEdgeNode :: "'m LocationCache \<Rightarrow> string \<Rightarrow> 'm LocationCache" where
  "UpdateEdgeNode lc nodeName = lc\<lparr>EdgeNodes := (EdgeNodes lc)(nodeName \<mapsto> ())\<rparr>"

definition DeleteConfigMap :: "'m LocationCache \<Rightarrow> string \<Rightarrow> string \<Rightarrow> 'm LocationCache" where
  "DeleteConfigMap lc namespace name =
     lc\<lparr>configMapNode := (configMapNode lc)(mapKey namespace name := None)\<rparr>"

definition DeleteSecret :: "'m LocationCache \<Rightarrow> string \<Rightarrow> string \<Rightarrow> 'm LocationCache" where
  "DeleteSecret lc namespace name =
     lc\<lparr>secretNode := (secretNode lc)(mapKey namespace name := None)\<rparr>"

definition DeleteNode :: "'m LocationCache \<Rightarrow> string \<Rightarrow> 'm LocationCache" where
  "DeleteNode lc nodeName = lc\<lparr>EdgeNodes := (EdgeNodes lc)(nodeName := None)\<rparr>"

subsection \<open>Endpoints\<close>

text \<open>The struct is passed and stored by value: its fields are copied, of a slice the header, of a map the reference.\<close>

definition AddOrUpdateEndpoints :: "'m LocationCache \<Rightarrow> 'm Endpoints \<Rightarrow> 'm LocationCache" where
  "AddOrUpdateEndpoints lc eps =
     lc\<lparr>endpoints := (endpoints lc)
          (mapKey (Namespace (ObjectMeta eps)) (Name (ObjectMeta eps)) \<mapsto> eps)\<rparr>"

definition DeleteEndpoints :: "'m LocationCache \<Rightarrow> 'm Endpoints \<Rightarrow> 'm LocationCache" where
  "DeleteEndpoints lc eps =
     lc\<lparr>endpoints := (endpoints lc)
          (mapKey (Namespace (ObjectMeta eps)) (Name (ObjectMeta eps)) := None)\<rparr>"

text \<open>
  \<^verbatim>\<open>reflect.DeepEqual\<close> on slices: both nil, or both non-nil of the same length and
  either the same first slot or equal elements. On maps: both nil, or both non-nil and
  either the same map object or the same entries. On a struct: field by field.
\<close>

fun deepEqualSlice :: "'a list list \<Rightarrow> slice \<Rightarrow> slice \<Rightarrow> bool" where
  "deepEqualSlice h NilSlice NilSlice = True"
| "deepEqualSlice h NilSlice (Slice p n c) = False"
| "deepEqualSlice h (Slice p n c) NilSlice = False"
| "deepEqualSlice h (Slice p n c) (Slice p' n' c') =
     (n = n' \<and> (p = p' \<or> take n (h ! p) = take n' (h ! p')))"

fun deepEqualMap :: "(string \<rightharpoonup> string) list \<Rightarrow> nat option \<Rightarrow> nat option \<Rightarrow> bool" where
  "deepEqualMap ms None None = True"
| "deepEqualMap ms None (Some b) = False"
| "deepEqualMap ms (Some a) None = False"
| "deepEqualMap ms (Some a) (Some b) = (a = b \<or> ms ! a = ms ! b)"

definition deepEqualMeta :: "(string \<rightharpoonup> string) list \<Rightarrow> 'm ObjectMeta \<Rightarrow> 'm ObjectMeta \<Rightarrow> bool" where
  "deepEqualMeta ms a b =
     (Name a = Name b \<and> Namespace a = Namespace b
      \<and> ResourceVersion a = ResourceVersion b \<and> Generation a = Generation b
      \<and> deepEqualMap ms (Labels a) (Labels b)
      \<and> deepEqualMap ms (Annotations a) (Annotations b)
      \<and> OtherMeta a = OtherMeta b)"

definition IsEndpointsUpdated :: "'s objects \<Rightarrow> 'm LocationCache \<Rightarrow> 'm Endpoints \<Rightarrow> bool" where
  "IsEndpointsUpdated objs lc new =
     (case endpoints lc (mapKey (Namespace (ObjectMeta new)) (Name (ObjectMeta new))) of
        None \<Rightarrow> True
      | Some eps \<Rightarrow>
         (let old = eps\<lparr>ObjectMeta := (ObjectMeta eps)
                      \<lparr>ResourceVersion := ResourceVersion (ObjectMeta new),
                       Generation := Generation (ObjectMeta new),
                       Annotations := Annotations (ObjectMeta new)\<rparr>\<rparr>
          in \<not> deepEqualMeta (stringMaps objs) (ObjectMeta old) (ObjectMeta new)
             \<or> \<not> deepEqualSlice (subsetArrays objs) (Subsets old) (Subsets new)))"

subsection \<open>Sequences of calls\<close>

datatype 'm cacheCall =
  CallAddOrUpdatePod Pod
| CallUpdateEdgeNode string
| CallDeleteNode string
| CallDeleteConfigMap string string
| CallDeleteSecret string string
| CallAddOrUpdateEndpoints "'m Endpoints"
| CallDeleteEndpoints "'m Endpoints"

fun call :: "(nat \<Rightarrow> nat) \<Rightarrow> 'm cacheCall \<Rightarrow> arrays \<times> 'm LocationCache \<Rightarrow> arrays \<times> 'm LocationCache" where
  "call grow (CallAddOrUpdatePod pod) st = AddOrUpdatePod grow st pod"
| "call grow (CallUpdateEdgeNode n) st = (fst st, UpdateEdgeNode (snd st) n)"
| "call grow (CallDeleteNode n) st = (fst st, DeleteNode (snd st) n)"
| "call grow (CallDeleteConfigMap namespace name) st = (fst st, DeleteConfigMap (snd st) namespace name)"
| "call grow (CallDeleteSecret namespace name) st = (fst st, DeleteSecret (snd st) namespace name)"
| "call grow (CallAddOrUpdateEndpoints eps) st = (fst st, AddOrUpdateEndpoints (snd st) eps)"
| "call grow (CallDeleteEndpoints eps) st = (fst st, DeleteEndpoints (snd st) eps)"

fun calls :: "(nat \<Rightarrow> nat) \<Rightarrow> 'm cacheCall list \<Rightarrow> arrays \<times> 'm LocationCache \<Rightarrow> arrays \<times> 'm LocationCache" where
  "calls grow [] st = st"
| "calls grow (c # rest) st = calls grow rest (call grow c st)"

subsection \<open>Calls that overlap\<close>

text \<open>
  The cache is called from several goroutines. A call of \<^verbatim>\<open>AddOrUpdatePod\<close> touches the
  shared maps in \<^verbatim>\<open>Load\<close> and \<^verbatim>\<open>Store\<close> only, and each of the two is atomic
  (\<^verbatim>\<open>sync.Map\<close>); between them another goroutine may run. A goroutine in such a call is
  the namespace and node of its pod, the config maps and secrets its loops have still to
  visit, and the place in the loop body where it stands: before \<^verbatim>\<open>Load\<close>, before
  \<^verbatim>\<open>newNodes\<close> (or the literal) with what \<^verbatim>\<open>Load\<close> returned, or before \<^verbatim>\<open>Store\<close> with
  the slice to store.
\<close>

datatype phase = AtLoad | AtNewNodes "slice option" | AtStore slice

record goroutine =
  gNamespace :: string
  gNode :: string
  gConfigMaps :: "string list"
  gSecrets :: "string list"
  gPhase :: phase

text \<open>The call starts with \<^verbatim>\<open>PodConfigMapsAndSecrets\<close>, which reads the pod only.\<close>

definition spawn :: "Pod \<Rightarrow> goroutine" where
  "spawn pod =
     \<lparr>gNamespace = podNamespace pod, gNode = NodeName pod,
      gConfigMaps = fst (PodConfigMapsAndSecrets pod),
      gSecrets = snd (PodConfigMapsAndSecrets pod), gPhase = AtLoad\<rparr>"

text \<open>One step of the loop body for key \<open>k\<close> on one of the two maps.\<close>

fun loopStep ::
  "(nat \<Rightarrow> nat) \<Rightarrow> string \<Rightarrow> string \<Rightarrow> phase \<Rightarrow> arrays \<times> (string \<rightharpoonup> slice)
   \<Rightarrow> (arrays \<times> (string \<rightharpoonup> slice)) \<times> phase" where
  "loopStep grow node k AtLoad (h, m) = ((h, m), AtNewNodes (m k))"
| "loopStep grow node k (AtNewNodes so) (h, m) =
     (case slotAdd grow node h so of (h', s) \<Rightarrow> ((h', m), AtStore s))"
| "loopStep grow node k (AtStore s) (h, m) = ((h, m(k \<mapsto> s)), AtLoad)"

text \<open>After \<^verbatim>\<open>Store\<close> the loop goes on to its next element.\<close>

fun afterStep :: "phase \<Rightarrow> string list \<Rightarrow> string list" where
  "afterStep (AtStore s) (c # rest) = rest"
| "afterStep ph cs = cs"

text \<open>
  One step of a goroutine: in the first loop while config maps are left, then in the
  second loop while secrets are left, then none.
\<close>

definition gstep ::
  "(nat \<Rightarrow> nat) \<Rightarrow> goroutine \<Rightarrow> arrays \<times> 'm LocationCache
   \<Rightarrow> (arrays \<times> 'm LocationCache) \<times> goroutine" where
  "gstep grow g st =
     (case st of (h, lc) \<Rightarrow>
        (case gConfigMaps g of
           c # rest \<Rightarrow>
             (case loopStep grow (gNode g) (mapKey (gNamespace g) c) (gPhase g)
                     (h, configMapNode lc) of
                ((h', m), ph) \<Rightarrow>
                  ((h', lc\<lparr>configMapNode := m\<rparr>),
                   g\<lparr>gConfigMaps := afterStep (gPhase g) (c # rest), gPhase := ph\<rparr>))
         | [] \<Rightarrow>
             (case gSecrets g of
                s # rest \<Rightarrow>
                  (case loopStep grow (gNode g) (mapKey (gNamespace g) s) (gPhase g)
                          (h, secretNode lc) of
                     ((h', m), ph) \<Rightarrow>
                       ((h', lc\<lparr>secretNode := m\<rparr>),
                        g\<lparr>gSecrets := afterStep (gPhase g) (s # rest), gPhase := ph\<rparr>))
              | [] \<Rightarrow> ((h, lc), g))))"

text \<open>
  A schedule names, step by step, the goroutine that runs next; the steps of the
  goroutines interleave in any order.
\<close>

fun schedule ::
  "(nat \<Rightarrow> nat) \<Rightarrow> nat list \<Rightarrow> (arrays \<times> 'm LocationCache) \<times> goroutine list
   \<Rightarrow> (arrays \<times> 'm LocationCache) \<times> goroutine list" where
  "schedule grow [] cfg = cfg"
| "schedule grow (i # rest) cfg =
     (case cfg of (st, gs) \<Rightarrow>
        (if i < length gs
         then (case gstep grow (gs ! i) st of (st', g') \<Rightarrow> schedule grow rest (st', gs[i := g']))
         else schedule grow rest (st, gs)))"

definition finished :: "goroutine \<Rightarrow> bool" where
  "finished g = (gConfigMaps g = [] \<and> gSecrets g = [])"

section \<open>What a pod references\<close>

text \<open>
  Following the words of the specification, on the fields of the pod and not on what the
  extractor returns: a pod references a config map through a volume that mounts it, a
  source of a projected volume, an \<^verbatim>\<open>envFrom\<close> entry of a container, or an \<^verbatim>\<open>env\<close> entry
  of a container that takes its value from a key of the config map.
\<close>

definition volumeReferences :: "Volume \<Rightarrow> string \<Rightarrow> bool" where
  "volumeReferences v c =
     (volConfigMap v = Some c
      \<or> (case volProjected v of
            None \<Rightarrow> False
          | Some sources \<Rightarrow> (\<exists>source \<in> set sources. projConfigMap source = Some c)))"

definition containerReferences :: "Container \<Rightarrow> string \<Rightarrow> bool" where
  "containerReferences s c =
     ((\<exists>ef \<in> set (EnvFrom s). ConfigMapRef ef = Some c)
      \<or> (\<exists>e \<in> set (Env s).
            case ValueFrom e of None \<Rightarrow> False | Some vf \<Rightarrow> ConfigMapKeyRef vf = Some c))"

definition referencesConfigMap :: "Pod \<Rightarrow> string \<Rightarrow> bool" where
  "referencesConfigMap pod c =
     ((\<exists>v \<in> set (Volumes pod). volumeReferences v c)
      \<or> (\<exists>s \<in> set (Containers pod). containerReferences s c))"

section \<open>Invariants of the node indices\<close>

text \<open>
  A slice is well formed in a store when its array exists, has as many slots as the
  capacity says, and the length is within the capacity.
\<close>

fun wfSlice :: "'a list list \<Rightarrow> slice \<Rightarrow> bool" where
  "wfSlice h NilSlice = True"
| "wfSlice h (Slice p n c) = (p < length h \<and> n \<le> c \<and> length (h ! p) = c)"

text \<open>The array a slice points to: none for the nil slice.\<close>

fun arrayOf :: "slice \<Rightarrow> nat set" where
  "arrayOf NilSlice = {}"
| "arrayOf (Slice p n c) = {p}"

text \<open>
  The invariant of a map from keys to slices: every slice is well formed and shows no
  element twice, and the slices of two keys lie in different arrays.
\<close>

definition slotsOK :: "arrays \<Rightarrow> ('k \<rightharpoonup> slice) \<Rightarrow> bool" where
  "slotsOK h M =
     ((\<forall>k s. M k = Some s \<longrightarrow> wfSlice h s \<and> distinct (elems h s))
      \<and> (\<forall>k k' s s'. M k = Some s \<longrightarrow> M k' = Some s' \<longrightarrow> k \<noteq> k' \<longrightarrow> arrayOf s \<inter> arrayOf s' = {}))"

text \<open>The node list under a key: the elements of its slice, none when the key is absent.\<close>

definition listAt :: "arrays \<Rightarrow> ('k \<rightharpoonup> slice) \<Rightarrow> 'k \<Rightarrow> string list" where
  "listAt h M k = (case M k of Some s \<Rightarrow> elems h s | None \<Rightarrow> [])"

text \<open>
  A step from store \<open>h\<close> and slice \<open>s\<close> to store \<open>h'\<close> and slice \<open>s'\<close> leaves the
  slices in other arrays alone: they stay well formed, keep their elements and stay apart
  from the new slice.
\<close>

definition framed :: "arrays \<Rightarrow> slice \<Rightarrow> arrays \<Rightarrow> slice \<Rightarrow> bool" where
  "framed h s h' s' =
     (\<forall>t. wfSlice h t \<longrightarrow> arrayOf t \<inter> arrayOf s = {} \<longrightarrow>
          wfSlice h' t \<and> elems h' t = elems h t \<and> arrayOf t \<inter> arrayOf s' = {})"

text \<open>A node list after the node was added to it.\<close>

definition withNode :: "string \<Rightarrow> string list \<Rightarrow> string list" where
  "withNode node xs = (if node \<in> set xs then xs else xs @ [node])"

text \<open>
  The two indices of the cache as one map, with the keys of the config-map index on the
  left and the keys of the secret index on the right: the invariant of the cache and its
  node lists.
\<close>

definition cacheOK :: "arrays \<times> 'm LocationCache \<Rightarrow> bool" where
  "cacheOK st = slotsOK (fst st) (case_sum (configMapNode (snd st)) (secretNode (snd st)))"

definition nodeLists :: "arrays \<times> 'm LocationCache \<Rightarrow> string + string \<Rightarrow> string list" where
  "nodeLists st = listAt (fst st) (case_sum (configMapNode (snd st)) (secretNode (snd st)))"

section \<open>Values of endpoints objects\<close>

text \<open>
  The value of an endpoints object in a store of objects: its fields, with each map
  reference replaced by the entries of the map and the \<^verbatim>\<open>Subsets\<close> slice by its
  elements (\<open>None\<close> for nil). Two objects are structurally identical when their values
  are equal.
\<close>

definition mapValue :: "(string \<rightharpoonup> string) list \<Rightarrow> nat option \<Rightarrow> (string \<rightharpoonup> string) option" where
  "mapValue ms r = (case r of None \<Rightarrow> None | Some a \<Rightarrow> Some (ms ! a))"

definition sliceValue :: "'a list list \<Rightarrow> slice \<Rightarrow> 'a list option" where
  "sliceValue h s = (case s of NilSlice \<Rightarrow> None | Slice p n c \<Rightarrow> Some (take n (h ! p)))"

record ('m, 's) EndpointsValue =
  vName :: string
  vNamespace :: string
  vResourceVersion :: string
  vGeneration :: "64 word"
  vLabels :: "(string \<rightharpoonup> string) option"
  vAnnotations :: "(string \<rightharpoonup> string) option"
  vOtherMeta :: 'm
  vSubsets :: "'s list option"

definition deepValue :: "'s objects \<Rightarrow> 'm Endpoints \<Rightarrow> ('m, 's) EndpointsValue" where
  "deepValue objs e =
     \<lparr>vName = Name (ObjectMeta e), vNamespace = Namespace (ObjectMeta e),
      vResourceVersion = ResourceVersion (ObjectMeta e),
      vGeneration = Generation (ObjectMeta e),
      vLabels = mapValue (stringMaps objs) (Labels (ObjectMeta e)),
      vAnnotations = mapValue (stringMaps objs) (Annotations (ObjectMeta e)),
      vOtherMeta = OtherMeta (ObjectMeta e),
      vSubsets = sliceValue (subsetArrays objs) (Subsets e)\<rparr>"

definition storedValue :: "'s objects \<Rightarrow> 'm LocationCache \<Rightarrow> string \<Rightarrow> ('m, 's) EndpointsValue option" where
  "storedValue objs lc k = (case endpoints lc k of None \<Rightarrow> None | Some e \<Rightarrow> Some (deepValue objs e))"

text \<open>
  Following the words of the specification: two endpoints objects that are identical
  except for resource version, generation and annotations.
\<close>

definition sameButChurn :: "'s objects \<Rightarrow> 'm Endpoints \<Rightarrow> 'm Endpoints \<Rightarrow> bool" where
  "sameButChurn objs a b =
     (vName (deepValue objs a) = vName (deepValue objs b)
      \<and> vNamespace (deepValue objs a) = vNamespace (deepValue objs b)
      \<and> vLabels (deepValue objs a) = vLabels (deepValue objs b)
      \<and> vOtherMeta (deepValue objs a) = vOtherMeta (deepValue objs b)
      \<and> vSubsets (deepValue objs a) = vSubsets (deepValue objs b))"

text \<open>
  What the holder of an endpoints object can do through it: \<^verbatim>\<open>e.Subsets[i] = v\<close>
  (panics out of range) and \<^verbatim>\<open>e.Labels[k] = v\<close> (panics on a nil map).
\<close>

definition setSubset :: "'s objects \<Rightarrow> 'm Endpoints \<Rightarrow> nat \<Rightarrow> 's \<Rightarrow> 's objects option" where
  "setSubset objs e i v =
     (case setElem (subsetArrays objs) (Subsets e) i v of
        None \<Rightarrow> None
      | Some h \<Rightarrow> Some (objs\<lparr>subsetArrays := h\<rparr>))"

definition setLabel :: "'s objects \<Rightarrow> 'm Endpoints \<Rightarrow> string \<Rightarrow> string \<Rightarrow> 's objects option" where
  "setLabel objs e k v =
     (case Labels (ObjectMeta e) of
        None \<Rightarrow> None
      | Some a \<Rightarrow> Some (objs\<lparr>stringMaps := (stringMaps objs)[a := (stringMaps objs ! a)(k \<mapsto> v)]\<rparr>))"

section \<open>Example inputs\<close>

text \<open>
  A pod in namespace \<open>ns\<close> that mounts config map \<open>cfg1\<close> and pulls images with secret
  \<open>sec3\<close>, and one that takes the value of an environment variable from a key of
  \<open>cfg1\<close>; an endpoints object \<open>ns/svc\<close> with one subset and one label, a later
  version of it that differs in resource version, generation and annotations only and
  lives in arrays and maps of its own, and the store that holds both; and the state of
  the cache after the pod was added on \<open>node1\<close>, where the runtime doubles capacities.
\<close>

definition examplePod :: "string \<Rightarrow> Pod" where
  "examplePod node =
     \<lparr>podNamespace = ''ns'',
      Volumes = [\<lparr>volConfigMap = Some ''cfg1'', volSecret = None, volProjected = None\<rparr>],
      Containers = [], ImagePullSecrets = [''sec3''], NodeName = node\<rparr>"

definition exampleEnvPod :: "string \<Rightarrow> Pod" where
  "exampleEnvPod node =
     \<lparr>podNamespace = ''ns'', Volumes = [],
      Containers = [\<lparr>EnvFrom = [],
                     Env = [\<lparr>ValueFrom = Some \<lparr>ConfigMapKeyRef = Some ''cfg1'',
                                                 SecretKeyRef = None\<rparr>\<rparr>]\<rparr>],
      ImagePullSecrets = [], NodeName = node\<rparr>"

definition exampleEndpoints :: "unit Endpoints" where
  "exampleEndpoints =
     \<lparr>ObjectMeta = \<lparr>Name = ''svc'', Namespace = ''ns'', ResourceVersion = ''7'', Generation = 1,
                    Labels = Some 0, Annotations = None, OtherMeta = ()\<rparr>,
      Subsets = Slice 0 1 1\<rparr>"

definition exampleObjects :: "string objects" where
  "exampleObjects =
     \<lparr>subsetArrays = [[''10.0.0.1''], [''10.0.0.1'']],
      stringMaps = [[''app'' \<mapsto> ''web''], [''app'' \<mapsto> ''web''], [''checked'' \<mapsto> ''now'']]\<rparr>"

definition exampleResync :: "unit Endpoints" where
  "exampleResync =
     \<lparr>ObjectMeta = \<lparr>Name = ''svc'', Namespace = ''ns'', ResourceVersion = ''8'', Generation = 2,
                    Labels = Some 1, Annotations = Some 2, OtherMeta = ()\<rparr>,
      Subsets = Slice 1 1 1\<rparr>"

definition exampleState :: "arrays \<times> unit LocationCache" where
  "exampleState = AddOrUpdatePod (\<lambda>c. 2 * c) ([], emptyCache) (examplePod ''node1'')"

section \<open>Properties\<close>

subsection \<open>The node lists hold no name twice\<close>

lemma hasNode_set: "hasNode xs node = (node \<in> set xs)"
  by (induction xs) auto

lemma addNode_slotAdd:
  "addNode grow node (h, m) k = (fst (slotAdd grow node h (m k)), m(k \<mapsto> snd (slotAdd grow node h (m k))))"
  by (simp add: addNode_def slotAdd_def split: option.splits prod.splits)

lemma wfSlice_alloc: "wfSlice h s \<Longrightarrow> wfSlice (h @ [a]) s"
  by (cases s) (auto simp: nth_append)

lemma elems_alloc: "wfSlice h s \<Longrightarrow> elems (h @ [a]) s = elems h s"
  by (cases s) (auto simp: nth_append)

lemma arrayOf_bound: "wfSlice h s \<Longrightarrow> length h \<notin> arrayOf s"
  by (cases s) auto

lemma wfSlice_write: "wfSlice h s \<Longrightarrow> length a = length (h ! p) \<Longrightarrow> wfSlice (h[p := a]) s"
  by (cases s; cases "p = ptr s") auto

lemma elems_write: "p \<notin> arrayOf s \<Longrightarrow> elems (h[p := a]) s = elems h s"
  by (cases s) (auto simp: nth_list_update)

lemma framed_refl: "framed h s h s"
  by (simp add: framed_def)

lemma framed_alloc: "framed h s (h @ [a]) (Slice (length h) n c)"
  unfolding framed_def
proof (intro allI impI)
  fix t assume wf: "wfSlice h t" and "arrayOf t \<inter> arrayOf s = {}"
  from wf have "length h \<notin> arrayOf t" by (rule arrayOf_bound)
  with wf show "wfSlice (h @ [a]) t \<and> elems (h @ [a]) t = elems h t
      \<and> arrayOf t \<inter> arrayOf (Slice (length h) n c) = {}"
    by (simp add: wfSlice_alloc elems_alloc)
qed

lemma framed_write:
  "length a = length (h ! p) \<Longrightarrow> framed h (Slice p n c) (h[p := a]) (Slice p n' c')"
  unfolding framed_def
proof (intro allI impI)
  fix t assume len: "length a = length (h ! p)" and wf: "wfSlice h t"
    and dis: "arrayOf t \<inter> arrayOf (Slice p n c) = {}"
  from dis have "p \<notin> arrayOf t" by simp
  with wf len show "wfSlice (h[p := a]) t \<and> elems (h[p := a]) t = elems h t
      \<and> arrayOf t \<inter> arrayOf (Slice p n' c') = {}"
    by (simp add: wfSlice_write elems_write)
qed

lemma appendStr_ok:
  assumes "wfSlice h s" and "appendStr grow h s x = (h', s')"
  shows "wfSlice h' s' \<and> elems h' s' = elems h s @ [x] \<and> framed h s h' s'"
proof (cases s)
  case NilSlice
  with assms show ?thesis by (auto simp: framed_alloc)
next
  case (Slice p n c)
  show ?thesis
  proof (cases "n < c")
    case True
    with assms Slice have h': "h' = h[p := (h ! p)[n := x]]" and s': "s' = Slice p (Suc n) c"
      by auto
    from assms(1) Slice True have "take (Suc n) ((h ! p)[n := x]) = take n (h ! p) @ [x]"
      by (simp add: take_Suc_conv_app_nth)
    with assms(1) Slice True show ?thesis
      unfolding h' s' by (simp add: framed_write)
  next
    case False
    with assms Slice show ?thesis by (auto simp: framed_alloc)
  qed
qed

lemma newNodes_ok:
  assumes "wfSlice h s" and "distinct (elems h s)" and "newNodes grow h s node = (h', s')"
  shows "wfSlice h' s' \<and> distinct (elems h' s') \<and> framed h s h' s'
     \<and> elems h' s' = (if node \<in> set (elems h s) then elems h s else elems h s @ [node])"
proof (cases "node \<in> set (elems h s)")
  case True
  with assms show ?thesis by (simp add: newNodes_def hasNode_set framed_refl)
next
  case False
  with assms(3) have "appendStr grow h s node = (h', s')"
    by (simp add: newNodes_def hasNode_set)
  from appendStr_ok [OF assms(1) this] assms(2) False show ?thesis by simp
qed

lemma slotAdd_ok:
  assumes ok: "slotsOK h M" and add: "slotAdd grow node h (M x) = (h', s)"
  shows "slotsOK h' (M(x \<mapsto> s))"
    and "listAt h' (M(x \<mapsto> s)) y =
       (if y = x then (if node \<in> set (listAt h M x) then listAt h M x else listAt h M x @ [node])
        else listAt h M y)"
proof -
  have new: "wfSlice h' s \<and> distinct (elems h' s)
      \<and> elems h' s = (if node \<in> set (listAt h M x) then listAt h M x else listAt h M x @ [node])"
    and others: "\<And>k t. M k = Some t \<Longrightarrow> k \<noteq> x \<Longrightarrow>
       wfSlice h' t \<and> elems h' t = elems h t \<and> arrayOf t \<inter> arrayOf s = {}"
  proof -
    show "wfSlice h' s \<and> distinct (elems h' s)
      \<and> elems h' s = (if node \<in> set (listAt h M x) then listAt h M x else listAt h M x @ [node])"
    proof (cases "M x")
      case None
      with add show ?thesis by (auto simp: slotAdd_def listAt_def)
    next
      case (Some nodes)
      with ok have wd: "wfSlice h nodes" "distinct (elems h nodes)" by (auto simp: slotsOK_def)
      from add Some have "newNodes grow h nodes node = (h', s)" by (simp add: slotAdd_def)
      from newNodes_ok [OF wd this] Some wd show ?thesis by (auto simp: listAt_def)
    qed
  next
    fix k t assume t: "M k = Some t" and kx: "k \<noteq> x"
    from ok t have wft: "wfSlice h t" by (auto simp: slotsOK_def)
    show "wfSlice h' t \<and> elems h' t = elems h t \<and> arrayOf t \<inter> arrayOf s = {}"
    proof (cases "M x")
      case None
      with add have "h' = h @ [[node]]" "s = Slice (length h) 1 1" by (auto simp: slotAdd_def)
      with wft arrayOf_bound [OF wft] show ?thesis by (simp add: wfSlice_alloc elems_alloc)
    next
      case (Some nodes)
      with ok have wd: "wfSlice h nodes" "distinct (elems h nodes)" by (auto simp: slotsOK_def)
      from add Some have "newNodes grow h nodes node = (h', s)" by (simp add: slotAdd_def)
      from newNodes_ok [OF wd this] have fr: "framed h nodes h' s" by simp
      from ok t Some kx have "arrayOf t \<inter> arrayOf nodes = {}" unfolding slotsOK_def by blast
      with fr wft show ?thesis unfolding framed_def by blast
    qed
  qed
  from ok have dis: "\<And>k k' t t'. M k = Some t \<Longrightarrow> M k' = Some t' \<Longrightarrow> k \<noteq> k' \<Longrightarrow> arrayOf t \<inter> arrayOf t' = {}"
    and each: "\<And>k t. M k = Some t \<Longrightarrow> distinct (elems h t)"
    unfolding slotsOK_def by blast+
  show "slotsOK h' (M(x \<mapsto> s))"
    unfolding slotsOK_def
  proof (intro conjI allI impI)
    fix k t assume "(M(x \<mapsto> s)) k = Some t"
    then show "wfSlice h' t" using new others by (cases "k = x") auto
  next
    fix k t assume a: "(M(x \<mapsto> s)) k = Some t"
    show "distinct (elems h' t)"
    proof (cases "k = x")
      case True
      with a have "t = s" by simp
      with new show ?thesis by blast
    next
      case False
      with a have "M k = Some t" by simp
      with others [OF this False] each [OF this] show ?thesis by simp
    qed
  next
    fix k k' t t'
    assume a: "(M(x \<mapsto> s)) k = Some t" and b: "(M(x \<mapsto> s)) k' = Some t'" and ne: "k \<noteq> k'"
    show "arrayOf t \<inter> arrayOf t' = {}"
    proof (cases "k = x")
      case True
      with ne a b have "t = s" "M k' = Some t'" "k' \<noteq> x" by auto
      with others [of k' t'] show ?thesis by auto
    next
      case False
      note kx = this
      show ?thesis
      proof (cases "k' = x")
        case True
        with a b kx have "t' = s" "M k = Some t" by auto
        with others [of k t] kx show ?thesis by auto
      next
        case False
        with a b kx ne dis [of k t k' t'] show ?thesis by auto
      qed
    qed
  qed
  show "listAt h' (M(x \<mapsto> s)) y =
       (if y = x then (if node \<in> set (listAt h M x) then listAt h M x else listAt h M x @ [node])
        else listAt h M y)"
  proof (cases "y = x")
    case True
    with new show ?thesis by (simp add: listAt_def)
  next
    case False
    show ?thesis
    proof (cases "M y")
      case None with False show ?thesis by (simp add: listAt_def)
    next
      case (Some t)
      with others [OF Some False] False show ?thesis by (simp add: listAt_def)
    qed
  qed
qed

lemma withNode_idem: "withNode node (withNode node xs) = withNode node xs"
  by (simp add: withNode_def)

lemma withNode_mem: "node \<in> set (withNode node xs)"
  by (simp add: withNode_def)

lemma withNode_keeps: "node \<in> set xs \<Longrightarrow> withNode node xs = xs"
  by (simp add: withNode_def)

lemma addNodes_slots:
  assumes inj: "inj f"
  shows "slotsOK h M \<Longrightarrow> (\<forall>k. M (f k) = m k) \<Longrightarrow> addNodes grow ns node cs (h, m) = (h', m') \<Longrightarrow>
    \<exists>M'. slotsOK h' M' \<and> (\<forall>k. M' (f k) = m' k) \<and> (\<forall>y. y \<notin> range f \<longrightarrow> M' y = M y)
       \<and> (\<forall>y. listAt h' M' y =
             (if y \<in> f ` mapKey ns ` set cs then withNode node (listAt h M y) else listAt h M y))"
proof (induction cs arbitrary: h m M)
  case Nil
  then show ?case by auto
next
  case (Cons c rest)
  let ?k = "mapKey ns c"
  obtain h1 s where add: "slotAdd grow node h (M (f ?k)) = (h1, s)" by (cases "slotAdd grow node h (M (f ?k))")
  let ?M1 = "M(f ?k \<mapsto> s)"
  from Cons.prems(2) add have step: "addNode grow node (h, m) ?k = (h1, m(?k \<mapsto> s))"
    by (simp add: addNode_slotAdd)
  have ok1: "slotsOK h1 ?M1" by (rule slotAdd_ok(1) [OF Cons.prems(1) add])
  have rel1: "\<forall>k. ?M1 (f k) = (m(?k \<mapsto> s)) k"
    using Cons.prems(2) inj by (auto simp: inj_def)
  from Cons.prems(3) step have "addNodes grow ns node rest (h1, m(?k \<mapsto> s)) = (h', m')" by simp
  from Cons.IH [OF ok1 rel1 this] obtain M' where
    M': "slotsOK h' M'" "\<forall>k. M' (f k) = m' k" "\<forall>y. y \<notin> range f \<longrightarrow> M' y = ?M1 y"
      "\<forall>y. listAt h' M' y =
             (if y \<in> f ` mapKey ns ` set rest then withNode node (listAt h1 ?M1 y) else listAt h1 ?M1 y)"
    by blast
  have l1: "\<And>y. listAt h1 ?M1 y = (if y = f ?k then withNode node (listAt h M (f ?k)) else listAt h M y)"
    using slotAdd_ok(2) [OF Cons.prems(1) add] by (simp add: withNode_def)
  have "\<forall>y. y \<notin> range f \<longrightarrow> M' y = M y" using M'(3) by auto
  moreover have "\<forall>y. listAt h' M' y =
             (if y \<in> f ` mapKey ns ` set (c # rest) then withNode node (listAt h M y) else listAt h M y)"
    using M'(4) l1 by (auto simp: withNode_idem)
  ultimately show ?case using M'(1,2) by blast
qed

lemma sum_map_eq:
  "(\<forall>k. M (Inl k) = a k) \<Longrightarrow> (\<forall>k. M (Inr k) = b k) \<Longrightarrow> M = case_sum a b"
  by (rule ext) (simp split: sum.split)

lemma AddOrUpdatePod_ok:
  assumes ok: "cacheOK st"
  shows "cacheOK (AddOrUpdatePod grow st pod)"
    and "nodeLists (AddOrUpdatePod grow st pod) y =
       (if y \<in> Inl ` mapKey (podNamespace pod) ` set (fst (PodConfigMapsAndSecrets pod))
             \<union> Inr ` mapKey (podNamespace pod) ` set (snd (PodConfigMapsAndSecrets pod))
        then withNode (NodeName pod) (nodeLists st y) else nodeLists st y)"
proof -
  obtain h lc where st: "st = (h, lc)" by (cases st)
  obtain configMaps secrets where cs: "PodConfigMapsAndSecrets pod = (configMaps, secrets)"
    by (cases "PodConfigMapsAndSecrets pod")
  let ?ns = "podNamespace pod" and ?node = "NodeName pod"
  obtain h1 cm where a1: "addNodes grow ?ns ?node configMaps (h, configMapNode lc) = (h1, cm)"
    by (cases "addNodes grow ?ns ?node configMaps (h, configMapNode lc)")
  obtain h2 sm where a2: "addNodes grow ?ns ?node secrets (h1, secretNode lc) = (h2, sm)"
    by (cases "addNodes grow ?ns ?node secrets (h1, secretNode lc)")
  have res: "AddOrUpdatePod grow st pod = (h2, lc\<lparr>configMapNode := cm, secretNode := sm\<rparr>)"
    by (simp add: AddOrUpdatePod_def st cs a1 a2)
  let ?M = "case_sum (configMapNode lc) (secretNode lc)"
  from ok st have ok0: "slotsOK h ?M" by (simp add: cacheOK_def)
  from addNodes_slots [OF inj_Inl ok0 _ a1] obtain M1 where
    M1: "slotsOK h1 M1" "\<forall>k. M1 (Inl k) = cm k" "\<forall>y. y \<notin> range Inl \<longrightarrow> M1 y = ?M y"
      "\<forall>y. listAt h1 M1 y =
         (if y \<in> Inl ` mapKey ?ns ` set configMaps then withNode ?node (listAt h ?M y) else listAt h ?M y)"
    by auto
  from M1(3) have "\<forall>k. M1 (Inr k) = secretNode lc k" by auto
  with M1(2) have M1eq: "M1 = case_sum cm (secretNode lc)" by (rule sum_map_eq)
  from M1(1) have ok1: "slotsOK h1 (case_sum cm (secretNode lc))" by (simp add: M1eq)
  from addNodes_slots [OF inj_Inr ok1 _ a2] obtain M2 where
    M2: "slotsOK h2 M2" "\<forall>k. M2 (Inr k) = sm k" "\<forall>y. y \<notin> range Inr \<longrightarrow> M2 y = case_sum cm (secretNode lc) y"
      "\<forall>y. listAt h2 M2 y =
         (if y \<in> Inr ` mapKey ?ns ` set secrets then withNode ?node (listAt h1 (case_sum cm (secretNode lc)) y)
          else listAt h1 (case_sum cm (secretNode lc)) y)"
    by auto
  from M2(3) have "\<forall>k. M2 (Inl k) = cm k" by auto
  from this M2(2) have M2eq: "M2 = case_sum cm sm" by (rule sum_map_eq)
  show "cacheOK (AddOrUpdatePod grow st pod)"
    using M2(1) by (simp add: res cacheOK_def M2eq)
  have "nodeLists (AddOrUpdatePod grow st pod) y = listAt h2 M2 y"
    by (simp add: res nodeLists_def M2eq)
  also have "\<dots> = (if y \<in> Inr ` mapKey ?ns ` set secrets then withNode ?node (listAt h1 M1 y)
          else listAt h1 M1 y)" using M2(4) by (simp add: M1eq)
  also have "\<dots> = (if y \<in> Inl ` mapKey ?ns ` set configMaps \<union> Inr ` mapKey ?ns ` set secrets
        then withNode ?node (listAt h ?M y) else listAt h ?M y)"
    using M1(4) by (auto simp: withNode_idem)
  finally show "nodeLists (AddOrUpdatePod grow st pod) y =
       (if y \<in> Inl ` mapKey (podNamespace pod) ` set (fst (PodConfigMapsAndSecrets pod))
             \<union> Inr ` mapKey (podNamespace pod) ` set (snd (PodConfigMapsAndSecrets pod))
        then withNode (NodeName pod) (nodeLists st y) else nodeLists st y)"
    by (simp add: cs st nodeLists_def)
qed

lemma slotsOK_delete: "slotsOK h M \<Longrightarrow> slotsOK h (M(x := None))"
  unfolding slotsOK_def by (auto split: if_splits)

lemma case_sum_delete_Inl: "case_sum (a(k := None)) b = (case_sum a b)(Inl k := None)"
  by (rule ext) (simp split: sum.split)

lemma case_sum_delete_Inr: "case_sum a (b(k := None)) = (case_sum a b)(Inr k := None)"
  by (rule ext) (simp split: sum.split)

lemma slotsOK_empty: "slotsOK h Map.empty"
  by (simp add: slotsOK_def)

lemma cacheOK_empty: "cacheOK (h, emptyCache)"
  by (simp add: cacheOK_def emptyCache_def slotsOK_def split: sum.split)

lemma call_ok: "cacheOK st \<Longrightarrow> cacheOK (call grow c st)"
proof (cases c)
  case (CallAddOrUpdatePod pod)
  assume "cacheOK st"
  then show ?thesis using CallAddOrUpdatePod by (simp add: AddOrUpdatePod_ok(1))
next
  case (CallDeleteConfigMap ns name)
  assume "cacheOK st"
  then show ?thesis using CallDeleteConfigMap
    by (simp add: cacheOK_def DeleteConfigMap_def case_sum_delete_Inl slotsOK_delete)
next
  case (CallDeleteSecret ns name)
  assume "cacheOK st"
  then show ?thesis using CallDeleteSecret
    by (simp add: cacheOK_def DeleteSecret_def case_sum_delete_Inr slotsOK_delete)
qed (simp_all add: cacheOK_def UpdateEdgeNode_def DeleteNode_def AddOrUpdateEndpoints_def
       DeleteEndpoints_def)

lemma calls_ok: "cacheOK st \<Longrightarrow> cacheOK (calls grow cs st)"
  by (induction cs arbitrary: st) (simp_all add: call_ok)

lemma calls_append: "calls grow (xs @ ys) st = calls grow ys (calls grow xs st)"
  by (induction xs arbitrary: st) simp_all

lemma repeated_add:
  assumes "cacheOK st" and "y \<in> Inl ` mapKey (podNamespace pod) ` set (fst (PodConfigMapsAndSecrets pod))
             \<union> Inr ` mapKey (podNamespace pod) ` set (snd (PodConfigMapsAndSecrets pod))"
  shows "cacheOK (calls grow (replicate (Suc n) (CallAddOrUpdatePod pod)) st)
     \<and> nodeLists (calls grow (replicate (Suc n) (CallAddOrUpdatePod pod)) st) y
         = withNode (NodeName pod) (nodeLists st y)"
  using assms(1)
proof (induction n arbitrary: st)
  case 0
  with assms(2) show ?case by (simp add: AddOrUpdatePod_ok)
next
  case (Suc n)
  let ?st1 = "AddOrUpdatePod grow st pod"
  from Suc.prems have ok1: "cacheOK ?st1" by (rule AddOrUpdatePod_ok(1))
  have l1: "nodeLists ?st1 y = withNode (NodeName pod) (nodeLists st y)"
    using AddOrUpdatePod_ok(2) [OF Suc.prems] assms(2) by simp
  from Suc.IH [OF ok1] l1 show ?case by (simp add: withNode_idem)
qed

lemma count_list_once: "distinct xs \<Longrightarrow> x \<in> set xs \<Longrightarrow> count_list xs x = 1"
  by (induction xs) auto

lemma cacheOK_distinct:
  "cacheOK st \<Longrightarrow> distinct (nodeLists st y)"
  by (auto simp: cacheOK_def nodeLists_def listAt_def slotsOK_def split: option.split)

lemma ConfigMapNodes_nodeLists:
  "elems (fst st) (ConfigMapNodes (snd st) namespace name) = nodeLists st (Inl (mapKey namespace name))"
  by (simp add: ConfigMapNodes_def nodeLists_def listAt_def split: option.split)

lemma SecretNodes_nodeLists:
  "elems (fst st) (SecretNodes (snd st) namespace name) = nodeLists st (Inr (mapKey namespace name))"
  by (simp add: SecretNodes_def nodeLists_def listAt_def split: option.split)

subsection \<open>The extractor finds every reference to a config map\<close>

lemma projectedSources_configMaps:
  "set (fst (projectedSources sources acc))
     = set (fst acc) \<union> {c. \<exists>source \<in> set sources. projConfigMap source = Some c}"
  by (induction sources arbitrary: acc)
     (auto simp: projectedSource_def split: prod.splits option.splits)

lemma volume_configMaps:
  "set (fst (volume v acc)) = set (fst acc) \<union> {c. volumeReferences v c}"
  by (auto simp: volume_def volumeReferences_def projectedSources_configMaps Let_def
        split: option.splits)

lemma volumes_configMaps:
  "set (fst (volumes vs acc)) = set (fst acc) \<union> {c. \<exists>v \<in> set vs. volumeReferences v c}"
  by (induction vs arbitrary: acc) (auto simp: volume_configMaps)

lemma envFromSources_configMaps:
  "set (fst (envFromSources efs acc))
     = set (fst acc) \<union> {c. \<exists>ef \<in> set efs. ConfigMapRef ef = Some c}"
  by (induction efs arbitrary: acc)
     (auto simp: envFromSource_def Let_def split: option.splits)

lemma envVars_configMaps:
  "set (fst (envVars es acc))
     = set (fst acc)
       \<union> {c. \<exists>e \<in> set es. case ValueFrom e of None \<Rightarrow> False | Some vf \<Rightarrow> ConfigMapKeyRef vf = Some c}"
  by (induction es arbitrary: acc)
     (auto simp: envVar_def split: option.splits)

lemma containers_configMaps:
  "set (fst (containers cs acc)) = set (fst acc) \<union> {c. \<exists>s \<in> set cs. containerReferences s c}"
  by (induction cs arbitrary: acc)
     (auto simp: containerReferences_def envVars_configMaps envFromSources_configMaps)

lemma imagePullSecrets_configMaps: "fst (imagePullSecrets ss acc) = fst acc"
  by (induction ss arbitrary: acc) simp_all

lemma extractor_configMaps:
  "set (fst (PodConfigMapsAndSecrets pod)) = {c. referencesConfigMap pod c}"
  by (auto simp: PodConfigMapsAndSecrets_def imagePullSecrets_configMaps containers_configMaps
        volumes_configMaps referencesConfigMap_def)

subsection \<open>Node names once\<close>

text \<open>
  C1. In every state reached from the empty cache by any sequence of calls, no node list
  of the config-map index or of the secret index holds a node name twice, neither as
  stored nor as \<^verbatim>\<open>ConfigMapNodes\<close> and \<^verbatim>\<open>SecretNodes\<close> return it. And when the spec of a
  pod references config map \<open>c\<close> (through a volume, a projected source, \<^verbatim>\<open>envFrom\<close> or
  \<^verbatim>\<open>env\<close>), then after one or more calls of \<^verbatim>\<open>AddOrUpdatePod\<close> with that pod the list
  that \<^verbatim>\<open>ConfigMapNodes\<close> returns for \<open>c\<close> in the pod's namespace holds the pod's node
  name exactly once.
\<close>

theorem node_lists_duplicate_free:
  assumes run: "calls grow cs (h0, emptyCache) = (h, lc)"
    and again: "calls grow (replicate (Suc n) (CallAddOrUpdatePod pod)) (h, lc) = (h', lc')"
  shows "(\<forall>namespace name. distinct (elems h (ConfigMapNodes lc namespace name)))
    \<and> (\<forall>namespace name. distinct (elems h (SecretNodes lc namespace name)))
    \<and> (\<forall>k s. configMapNode lc k = Some s \<longrightarrow> distinct (elems h s))
    \<and> (\<forall>k s. secretNode lc k = Some s \<longrightarrow> distinct (elems h s))
    \<and> (referencesConfigMap pod c \<longrightarrow>
         count_list (elems h' (ConfigMapNodes lc' (podNamespace pod) c)) (NodeName pod) = 1)"
proof -
  let ?st = "(h, lc)" and ?st' = "(h', lc')"
  have ok: "cacheOK ?st" using calls_ok [OF cacheOK_empty, of grow cs h0] run by simp
  have d: "\<And>y. distinct (nodeLists ?st y)" by (rule cacheOK_distinct [OF ok])
  have 1: "\<forall>namespace name. distinct (elems h (ConfigMapNodes lc namespace name))"
    using d ConfigMapNodes_nodeLists [of ?st] by simp
  have 2: "\<forall>namespace name. distinct (elems h (SecretNodes lc namespace name))"
    using d SecretNodes_nodeLists [of ?st] by simp
  have 3: "\<forall>k s. configMapNode lc k = Some s \<longrightarrow> distinct (elems h s)"
  proof (intro allI impI)
    fix k s assume "configMapNode lc k = Some s"
    with d [of "Inl k"] show "distinct (elems h s)" by (simp add: nodeLists_def listAt_def)
  qed
  have 4: "\<forall>k s. secretNode lc k = Some s \<longrightarrow> distinct (elems h s)"
  proof (intro allI impI)
    fix k s assume "secretNode lc k = Some s"
    with d [of "Inr k"] show "distinct (elems h s)" by (simp add: nodeLists_def listAt_def)
  qed
  have 5: "referencesConfigMap pod c \<longrightarrow>
         count_list (elems h' (ConfigMapNodes lc' (podNamespace pod) c)) (NodeName pod) = 1"
  proof
    assume "referencesConfigMap pod c"
    then have c: "c \<in> set (fst (PodConfigMapsAndSecrets pod))"
      by (simp add: extractor_configMaps)
    let ?y = "Inl (mapKey (podNamespace pod) c) :: string + string"
    from c have y: "?y \<in> Inl ` mapKey (podNamespace pod) ` set (fst (PodConfigMapsAndSecrets pod))
             \<union> Inr ` mapKey (podNamespace pod) ` set (snd (PodConfigMapsAndSecrets pod))" by blast
    from repeated_add [OF ok y, of grow n] again have ok': "cacheOK ?st'"
      and l: "nodeLists ?st' ?y = withNode (NodeName pod) (nodeLists ?st ?y)"
      by simp_all
    from l have "NodeName pod \<in> set (nodeLists ?st' ?y)" by (simp add: withNode_mem)
    moreover have "distinct (nodeLists ?st' ?y)" by (rule cacheOK_distinct [OF ok'])
    ultimately show "count_list (elems h' (ConfigMapNodes lc' (podNamespace pod) c)) (NodeName pod) = 1"
      using ConfigMapNodes_nodeLists [of ?st'] by (simp add: count_list_once)
  qed
  from 1 2 3 4 5 show ?thesis by blast
qed

theorem node_lists_duplicate_free_witness:
  "calls (\<lambda>c. 2 * c) [CallAddOrUpdatePod (examplePod ''node2'')] ([], emptyCache :: unit LocationCache)
     = ([[''node2''], [''node2'']],
        emptyCache\<lparr>configMapNode := [''ns/cfg1'' \<mapsto> Slice 0 1 1],
                   secretNode := [''ns/sec3'' \<mapsto> Slice 1 1 1]\<rparr>)
   \<and> referencesConfigMap (exampleEnvPod ''node1'') ''cfg1''
   \<and> count_list
        (elems
          (fst (calls (\<lambda>c. 2 * c) (replicate (Suc 1) (CallAddOrUpdatePod (exampleEnvPod ''node1'')))
                 ([[''node2''], [''node2'']],
                  emptyCache\<lparr>configMapNode := [''ns/cfg1'' \<mapsto> Slice 0 1 1],
                             secretNode := [''ns/sec3'' \<mapsto> Slice 1 1 1]\<rparr> :: unit LocationCache)))
          (ConfigMapNodes
             (snd (calls (\<lambda>c. 2 * c) (replicate (Suc 1) (CallAddOrUpdatePod (exampleEnvPod ''node1'')))
                    ([[''node2''], [''node2'']],
                     emptyCache\<lparr>configMapNode := [''ns/cfg1'' \<mapsto> Slice 0 1 1],
                                secretNode := [''ns/sec3'' \<mapsto> Slice 1 1 1]\<rparr> :: unit LocationCache)))
             (podNamespace (exampleEnvPod ''node1'')) ''cfg1''))
        (NodeName (exampleEnvPod ''node1'')) = 1"
proof -
  let ?g = "\<lambda>c::nat. 2 * c"
  let ?lc = "emptyCache\<lparr>configMapNode := [''ns/cfg1'' \<mapsto> Slice 0 1 1],
                        secretNode := [''ns/sec3'' \<mapsto> Slice 1 1 1]\<rparr> :: unit LocationCache"
  let ?h = "[[''node2''], [''node2'']]"
  let ?st' = "calls ?g (replicate (Suc 1) (CallAddOrUpdatePod (exampleEnvPod ''node1''))) (?h, ?lc)"
  have mem: "referencesConfigMap (exampleEnvPod ''node1'') ''cfg1''"
    by (simp add: exampleEnvPod_def referencesConfigMap_def containerReferences_def)
  have a: "calls ?g [CallAddOrUpdatePod (examplePod ''node2'')] ([], emptyCache :: unit LocationCache) = (?h, ?lc)"
    by (simp add: AddOrUpdatePod_def addNode_def mapKey_def emptyCache_def
          examplePod_def PodConfigMapsAndSecrets_def volume_def)
  have b: "calls ?g (replicate (Suc 1) (CallAddOrUpdatePod (exampleEnvPod ''node1''))) (?h, ?lc) = (fst ?st', snd ?st')"
    by simp
  from node_lists_duplicate_free [OF a b, of "''cfg1''"] mem a show ?thesis by blast
qed

subsection \<open>The example state\<close>

lemma exampleState_eq:
  "exampleState =
     ([[''node1''], [''node1'']],
      emptyCache\<lparr>configMapNode := [''ns/cfg1'' \<mapsto> Slice 0 1 1],
                 secretNode := [''ns/sec3'' \<mapsto> Slice 1 1 1]\<rparr>)"
  by (simp add: exampleState_def AddOrUpdatePod_def addNode_def mapKey_def emptyCache_def
        examplePod_def PodConfigMapsAndSecrets_def volume_def)

subsection \<open>Dependency extraction\<close>

text \<open>
  C4. For a pod with a volume mounting config map \<open>cfg1\<close>, a projected volume with one
  source for secret \<open>sec1\<close>, one container with \<^verbatim>\<open>envFrom.secretRef\<close> \<open>sec2\<close> and an
  \<^verbatim>\<open>env\<close> entry from \<^verbatim>\<open>configMapKeyRef\<close> \<open>cfg2\<close>, and image-pull secret \<open>sec3\<close>, the
  extractor returns the config maps \<open>cfg1, cfg2\<close> and the secrets \<open>sec1, sec2, sec3\<close>.
\<close>

theorem extraction_example:
  "PodConfigMapsAndSecrets
     \<lparr>podNamespace = namespace,
      Volumes = [\<lparr>volConfigMap = Some cfg1, volSecret = None, volProjected = None\<rparr>,
                 \<lparr>volConfigMap = None, volSecret = None,
                  volProjected = Some [\<lparr>projConfigMap = None, projSecret = Some sec1\<rparr>]\<rparr>],
      Containers = [\<lparr>EnvFrom = [\<lparr>ConfigMapRef = None, SecretRef = Some sec2\<rparr>],
                     Env = [\<lparr>ValueFrom = Some \<lparr>ConfigMapKeyRef = Some cfg2, SecretKeyRef = None\<rparr>\<rparr>]\<rparr>],
      ImagePullSecrets = [sec3], NodeName = node\<rparr>
   = ([cfg1, cfg2], [sec1, sec2, sec3])"
  by (simp add: PodConfigMapsAndSecrets_def volume_def projectedSource_def envFromSource_def envVar_def)

text \<open>
  C10. A projected-volume source with both a config map and a secret adds the config
  map's name only, and an \<^verbatim>\<open>env\<close> entry whose source has both a \<^verbatim>\<open>configMapKeyRef\<close> and
  a \<^verbatim>\<open>secretKeyRef\<close> adds the config map's name only; a pod made of one such source and
  one such entry yields the two config maps and no secret.
\<close>

theorem config_map_wins_over_secret:
  "projectedSource \<lparr>projConfigMap = Some c, projSecret = Some s\<rparr> (configMaps, secrets)
     = (configMaps @ [c], secrets)
   \<and> envVar \<lparr>ValueFrom = Some \<lparr>ConfigMapKeyRef = Some c', SecretKeyRef = Some s'\<rparr>\<rparr> (configMaps, secrets)
     = (configMaps @ [c'], secrets)
   \<and> PodConfigMapsAndSecrets
       \<lparr>podNamespace = namespace,
        Volumes = [\<lparr>volConfigMap = None, volSecret = None,
                    volProjected = Some [\<lparr>projConfigMap = Some c, projSecret = Some s\<rparr>]\<rparr>],
        Containers = [\<lparr>EnvFrom = [],
                       Env = [\<lparr>ValueFrom = Some \<lparr>ConfigMapKeyRef = Some c', SecretKeyRef = Some s'\<rparr>\<rparr>]\<rparr>],
        ImagePullSecrets = [], NodeName = node\<rparr>
     = ([c, c'], [])"
  by (simp add: PodConfigMapsAndSecrets_def volume_def projectedSource_def envVar_def)

subsection \<open>Deletion and the edge-node set\<close>

lemma call_keeps_absent:
  assumes "\<forall>pod. c \<noteq> CallAddOrUpdatePod pod"
  shows "configMapNode (snd st) k = None \<Longrightarrow> configMapNode (snd (call grow c st)) k = None"
    and "secretNode (snd st) k = None \<Longrightarrow> secretNode (snd (call grow c st)) k = None"
  using assms
  by (cases c; simp add: UpdateEdgeNode_def DeleteNode_def DeleteConfigMap_def DeleteSecret_def
        AddOrUpdateEndpoints_def DeleteEndpoints_def)+

lemma calls_keep_absent:
  assumes "\<forall>pod. CallAddOrUpdatePod pod \<notin> set cs"
  shows "configMapNode (snd st) k = None \<Longrightarrow> configMapNode (snd (calls grow cs st)) k = None"
    and "secretNode (snd st) k = None \<Longrightarrow> secretNode (snd (calls grow cs st)) k = None"
  using assms
proof (induction cs arbitrary: st)
  case Nil
  { case 1 then show ?case by simp }
  { case 2 then show ?case by simp }
next
  case (Cons c rest)
  { case 1
    from 1(2) have c: "\<forall>pod. c \<noteq> CallAddOrUpdatePod pod" and r: "\<forall>pod. CallAddOrUpdatePod pod \<notin> set rest"
      by auto
    from Cons.IH(1) [OF call_keeps_absent(1) [OF c 1(1)] r] show ?case by simp }
  { case 2
    from 2(2) have c: "\<forall>pod. c \<noteq> CallAddOrUpdatePod pod" and r: "\<forall>pod. CallAddOrUpdatePod pod \<notin> set rest"
      by auto
    from Cons.IH(2) [OF call_keeps_absent(2) [OF c 2(1)] r] show ?case by simp }
qed

text \<open>
  C6. After \<^verbatim>\<open>DeleteConfigMap\<close> (\<^verbatim>\<open>DeleteSecret\<close>) of a key, \<^verbatim>\<open>ConfigMapNodes\<close>
  (\<^verbatim>\<open>SecretNodes\<close>) for the same key returns the nil slice, which has no elements,
  whatever the cache held before; and it goes on returning the nil slice through all
  later calls, as long as none of them is \<^verbatim>\<open>AddOrUpdatePod\<close>.
\<close>

theorem nodes_empty_after_delete:
  fixes lc :: "'m LocationCache"
  shows "ConfigMapNodes (DeleteConfigMap lc namespace name) namespace name = NilSlice
   \<and> elems h (ConfigMapNodes (DeleteConfigMap lc namespace name) namespace name) = []
   \<and> SecretNodes (DeleteSecret lc namespace name) namespace name = NilSlice
   \<and> elems h (SecretNodes (DeleteSecret lc namespace name) namespace name) = []
   \<and> ((\<forall>pod. CallAddOrUpdatePod pod \<notin> set cs) \<longrightarrow>
        ConfigMapNodes (snd (calls grow cs (h0, DeleteConfigMap lc namespace name))) namespace name = NilSlice
        \<and> SecretNodes (snd (calls grow cs (h0, DeleteSecret lc namespace name))) namespace name = NilSlice)"
proof -
  have a: "configMapNode (snd (h0, DeleteConfigMap lc namespace name)) (mapKey namespace name) = None"
    by (simp add: DeleteConfigMap_def)
  have b: "secretNode (snd (h0, DeleteSecret lc namespace name)) (mapKey namespace name) = None"
    by (simp add: DeleteSecret_def)
  have "(\<forall>pod. CallAddOrUpdatePod pod \<notin> set cs) \<longrightarrow>
        ConfigMapNodes (snd (calls grow cs (h0, DeleteConfigMap lc namespace name))) namespace name = NilSlice
        \<and> SecretNodes (snd (calls grow cs (h0, DeleteSecret lc namespace name))) namespace name = NilSlice"
    using calls_keep_absent(1) [OF _ a, of cs grow] calls_keep_absent(2) [OF _ b, of cs grow]
    by (simp add: ConfigMapNodes_def SecretNodes_def)
  then show ?thesis
    by (simp add: ConfigMapNodes_def DeleteConfigMap_def SecretNodes_def DeleteSecret_def)
qed

theorem nodes_empty_after_delete_witness:
  "elems (fst exampleState) (ConfigMapNodes (snd exampleState) ''ns'' ''cfg1'') = [''node1'']
   \<and> (\<forall>pod. CallAddOrUpdatePod pod
          \<notin> set [CallUpdateEdgeNode ''node1'', CallDeleteSecret ''ns'' ''sec3'' :: unit cacheCall])
   \<and> ConfigMapNodes (snd (calls (\<lambda>c. 2 * c) [CallUpdateEdgeNode ''node1'', CallDeleteSecret ''ns'' ''sec3'']
        (fst exampleState, DeleteConfigMap (snd exampleState) ''ns'' ''cfg1''))) ''ns'' ''cfg1'' = NilSlice"
proof -
  have a: "\<forall>pod. CallAddOrUpdatePod pod \<notin> set [CallUpdateEdgeNode ''node1'', CallDeleteSecret ''ns'' ''sec3'' :: unit cacheCall]"
    by simp
  have b: "elems (fst exampleState) (ConfigMapNodes (snd exampleState) ''ns'' ''cfg1'') = [''node1'']"
    by (simp add: exampleState_eq ConfigMapNodes_def mapKey_def)
  from nodes_empty_after_delete [where lc = "snd exampleState" and namespace = "''ns''" and name = "''cfg1''"
      and cs = "[CallUpdateEdgeNode ''node1'', CallDeleteSecret ''ns'' ''sec3'']" and grow = "\<lambda>c. 2 * c" and ?h0.0 = "fst exampleState"]
    a b show ?thesis by blast
qed

lemma call_keeps_non_edge:
  "c \<noteq> CallUpdateEdgeNode n \<Longrightarrow> \<not> IsEdgeNode (snd st) n \<Longrightarrow> \<not> IsEdgeNode (snd (call grow c st)) n"
  by (cases c; cases st)
     (auto simp: IsEdgeNode_def AddOrUpdatePod_def UpdateEdgeNode_def DeleteNode_def
        DeleteConfigMap_def DeleteSecret_def AddOrUpdateEndpoints_def DeleteEndpoints_def
        split: prod.splits option.splits if_splits)

lemma calls_keep_non_edge:
  "CallUpdateEdgeNode n \<notin> set cs \<Longrightarrow> \<not> IsEdgeNode (snd st) n
   \<Longrightarrow> \<not> IsEdgeNode (snd (calls grow cs st)) n"
proof (induction cs arbitrary: st)
  case Nil
  then show ?case by simp
next
  case (Cons c rest)
  from Cons.prems have "c \<noteq> CallUpdateEdgeNode n" by auto
  from call_keeps_non_edge [OF this Cons.prems(2)] Cons.prems(1) Cons.IH show ?case by simp
qed

text \<open>
  C7. A name that no call of \<^verbatim>\<open>UpdateEdgeNode\<close> was given is not an edge node in any state
  reached from the empty cache; a name is an edge node right after \<^verbatim>\<open>UpdateEdgeNode\<close>
  and is none right after \<^verbatim>\<open>DeleteNode\<close>; and \<^verbatim>\<open>DeleteNode\<close> of a name that is not an
  edge node leaves the cache as it is.
\<close>

theorem edge_node_membership:
  fixes lc :: "'m LocationCache" and cs :: "'m cacheCall list"
  shows "(CallUpdateEdgeNode n \<notin> set cs \<longrightarrow> \<not> IsEdgeNode (snd (calls grow cs (h0, emptyCache))) n)
   \<and> IsEdgeNode (UpdateEdgeNode lc n) n
   \<and> \<not> IsEdgeNode (DeleteNode lc n) n
   \<and> (\<not> IsEdgeNode lc n \<longrightarrow> DeleteNode lc n = lc)"
proof -
  have "\<not> IsEdgeNode (snd (h0, emptyCache :: 'm LocationCache)) n"
    by (simp add: IsEdgeNode_def emptyCache_def)
  then have 1: "CallUpdateEdgeNode n \<notin> set cs \<longrightarrow> \<not> IsEdgeNode (snd (calls grow cs (h0, emptyCache))) n"
    using calls_keep_non_edge by blast
  have 2: "IsEdgeNode (UpdateEdgeNode lc n) n" by (simp add: IsEdgeNode_def UpdateEdgeNode_def)
  have 3: "\<not> IsEdgeNode (DeleteNode lc n) n" by (simp add: IsEdgeNode_def DeleteNode_def)
  have 4: "\<not> IsEdgeNode lc n \<longrightarrow> DeleteNode lc n = lc"
  proof
    assume "\<not> IsEdgeNode lc n"
    then have "EdgeNodes lc n = None" by (simp add: IsEdgeNode_def split: option.splits)
    then have "(EdgeNodes lc)(n := None) = EdgeNodes lc" by (metis fun_upd_triv)
    then show "DeleteNode lc n = lc" by (simp add: DeleteNode_def)
  qed
  from 1 2 3 4 show ?thesis by blast
qed

theorem edge_node_membership_witness:
  "CallUpdateEdgeNode ''node1'' \<notin> set [CallUpdateEdgeNode ''node2'', CallDeleteNode ''node1'', CallAddOrUpdatePod (examplePod ''node1'')]
   \<and> \<not> IsEdgeNode (snd (calls (\<lambda>c. 2 * c) [CallUpdateEdgeNode ''node2'', CallDeleteNode ''node1'', CallAddOrUpdatePod (examplePod ''node1'')] ([], emptyCache :: unit LocationCache))) ''node1''
   \<and> \<not> IsEdgeNode (emptyCache :: unit LocationCache) ''node1''
   \<and> DeleteNode (emptyCache :: unit LocationCache) ''node1'' = emptyCache"
proof -
  have a: "CallUpdateEdgeNode ''node1'' \<notin> set [CallUpdateEdgeNode ''node2'', CallDeleteNode ''node1'', CallAddOrUpdatePod (examplePod ''node1'')]"
    by simp
  have b: "\<not> IsEdgeNode (emptyCache :: unit LocationCache) ''node1''"
    by (simp add: IsEdgeNode_def emptyCache_def)
  from edge_node_membership [of "''node1''" "[CallUpdateEdgeNode ''node2'', CallDeleteNode ''node1'', CallAddOrUpdatePod (examplePod ''node1'')] :: unit cacheCall list" "\<lambda>c. 2 * c" "[]" "emptyCache :: unit LocationCache"] a b
  show ?thesis by simp
qed

subsection \<open>Change detection for endpoints\<close>

text \<open>
  C5. When the cache holds no snapshot under the key of an endpoints object,
  \<^verbatim>\<open>IsEndpointsUpdated\<close> returns true, whatever the object holds.
\<close>

theorem unknown_endpoints_updated:
  "endpoints lc (mapKey (Namespace (ObjectMeta e)) (Name (ObjectMeta e))) = None
   \<Longrightarrow> IsEndpointsUpdated objs lc e"
  by (simp add: IsEndpointsUpdated_def)

theorem unknown_endpoints_updated_witness:
  "endpoints (emptyCache :: unit LocationCache)
      (mapKey (Namespace (ObjectMeta exampleEndpoints)) (Name (ObjectMeta exampleEndpoints))) = None
   \<and> IsEndpointsUpdated exampleObjects emptyCache exampleEndpoints"
proof -
  have a: "endpoints (emptyCache :: unit LocationCache)
      (mapKey (Namespace (ObjectMeta exampleEndpoints)) (Name (ObjectMeta exampleEndpoints))) = None"
    by (simp add: emptyCache_def)
  from unknown_endpoints_updated [OF a] a show ?thesis by blast
qed

lemma deepEqualMap_same: "deepEqualMap ms r r"
  by (cases r) simp_all

lemma deepEqualMap_value: "mapValue ms a = mapValue ms b \<Longrightarrow> deepEqualMap ms a b"
  by (cases a; cases b) (simp_all add: mapValue_def)

lemma deepEqualSlice_value:
  "wfSlice h s \<Longrightarrow> wfSlice h t \<Longrightarrow> sliceValue h s = sliceValue h t \<Longrightarrow> deepEqualSlice h s t"
proof (cases s; cases t)
  fix p n c p' n' c'
  assume s: "s = Slice p n c" and t: "t = Slice p' n' c'"
    and wf: "wfSlice h s" "wfSlice h t" and eq: "sliceValue h s = sliceValue h t"
  from eq s t have tk: "take n (h ! p) = take n' (h ! p')" by (simp add: sliceValue_def)
  then have "length (take n (h ! p)) = length (take n' (h ! p'))" by simp
  with wf s t have "n = n'" by simp
  with tk s t show ?thesis by simp
qed (simp_all add: sliceValue_def)

text \<open>
  C2. When the cache holds a snapshot under the key of a new endpoints object, and the
  two are structurally identical but for resource version, generation and annotations,
  then \<^verbatim>\<open>IsEndpointsUpdated\<close> returns false. (Both \<^verbatim>\<open>Subsets\<close> slices are well formed,
  as every slice of a Go program is.)
\<close>

theorem churn_only_not_updated:
  assumes stored: "endpoints lc (mapKey (Namespace (ObjectMeta new)) (Name (ObjectMeta new))) = Some old"
    and wf: "wfSlice (subsetArrays objs) (Subsets old)" "wfSlice (subsetArrays objs) (Subsets new)"
    and same: "sameButChurn objs old new"
  shows "\<not> IsEndpointsUpdated objs lc new"
proof -
  from same have m: "Name (ObjectMeta old) = Name (ObjectMeta new)"
      "Namespace (ObjectMeta old) = Namespace (ObjectMeta new)"
      "OtherMeta (ObjectMeta old) = OtherMeta (ObjectMeta new)"
    and l: "mapValue (stringMaps objs) (Labels (ObjectMeta old)) = mapValue (stringMaps objs) (Labels (ObjectMeta new))"
    and s: "sliceValue (subsetArrays objs) (Subsets old) = sliceValue (subsetArrays objs) (Subsets new)"
    by (simp_all add: sameButChurn_def deepValue_def)
  have meta: "deepEqualMeta (stringMaps objs)
      ((ObjectMeta old)\<lparr>ResourceVersion := ResourceVersion (ObjectMeta new),
                         Generation := Generation (ObjectMeta new),
                         Annotations := Annotations (ObjectMeta new)\<rparr>) (ObjectMeta new)"
    using m deepEqualMap_value [OF l] by (simp add: deepEqualMeta_def deepEqualMap_same)
  have subs: "deepEqualSlice (subsetArrays objs) (Subsets old) (Subsets new)"
    by (rule deepEqualSlice_value [OF wf s])
  from stored meta subs show ?thesis by (simp add: IsEndpointsUpdated_def Let_def)
qed

theorem churn_only_not_updated_witness:
  "endpoints (AddOrUpdateEndpoints emptyCache exampleEndpoints)
     (mapKey (Namespace (ObjectMeta exampleResync)) (Name (ObjectMeta exampleResync)))
     = Some exampleEndpoints
   \<and> wfSlice (subsetArrays exampleObjects) (Subsets exampleEndpoints)
   \<and> wfSlice (subsetArrays exampleObjects) (Subsets exampleResync)
   \<and> sameButChurn exampleObjects exampleEndpoints exampleResync
   \<and> \<not> IsEndpointsUpdated exampleObjects (AddOrUpdateEndpoints emptyCache exampleEndpoints)
        exampleResync"
proof -
  let ?lc = "AddOrUpdateEndpoints emptyCache exampleEndpoints"
  have a: "endpoints ?lc (mapKey (Namespace (ObjectMeta exampleResync)) (Name (ObjectMeta exampleResync))) = Some exampleEndpoints"
    by (simp add: AddOrUpdateEndpoints_def exampleEndpoints_def exampleResync_def)
  have b: "wfSlice (subsetArrays exampleObjects) (Subsets exampleEndpoints)"
    by (simp add: exampleEndpoints_def exampleObjects_def)
  have c: "wfSlice (subsetArrays exampleObjects) (Subsets exampleResync)"
    by (simp add: exampleResync_def exampleObjects_def)
  have d: "sameButChurn exampleObjects exampleEndpoints exampleResync"
    by (simp add: sameButChurn_def deepValue_def sliceValue_def mapValue_def
          exampleEndpoints_def exampleResync_def exampleObjects_def)
  from churn_only_not_updated [OF a b c d] a b c d show ?thesis by blast
qed

subsection \<open>What the queries return\<close>

lemma slot_write:
  assumes ok: "slotsOK h M" and k: "M k = Some s" and i: "i < length (elems h s)"
  shows "\<exists>h'. setElem h s i x = Some h' \<and> listAt h' M k = (listAt h M k)[i := x]
           \<and> (\<forall>y. y \<noteq> k \<longrightarrow> listAt h' M y = listAt h M y)"
proof (cases s)
  case NilSlice
  with i show ?thesis by simp
next
  case (Slice p n c)
  from ok k have "wfSlice h s" unfolding slotsOK_def by blast
  with Slice have wf: "p < length h" "n \<le> c" "length (h ! p) = c" by simp_all
  from i Slice have "i < n" by simp
  let ?h' = "h[p := (h ! p)[i := x]]"
  have 1: "setElem h s i x = Some ?h'" using Slice \<open>i < n\<close> by simp
  have 2: "listAt ?h' M k = (listAt h M k)[i := x]"
    using k Slice wf by (simp add: listAt_def take_update_swap)
  have 3: "\<forall>y. y \<noteq> k \<longrightarrow> listAt ?h' M y = listAt h M y"
  proof (intro allI impI)
    fix y assume yk: "y \<noteq> k"
    show "listAt ?h' M y = listAt h M y"
    proof (cases "M y")
      case None
      then show ?thesis by (simp add: listAt_def)
    next
      case (Some t)
      with ok k yk have "arrayOf t \<inter> arrayOf s = {}" unfolding slotsOK_def by blast
      with Slice have "p \<notin> arrayOf t" by simp
      with Some show ?thesis by (simp add: listAt_def elems_write)
    qed
  qed
  from 1 2 3 show ?thesis by blast
qed

text \<open>
  C8, as amended. \<^verbatim>\<open>ConfigMapNodes\<close> and \<^verbatim>\<open>SecretNodes\<close> return the stored slice itself,
  not a copy. In every state reached from the empty cache, for a key that is present: the
  result is the stored slice, and assigning to element \<open>i\<close> of the result (within its
  length) replaces element \<open>i\<close> of the node list the cache holds for that key; the
  node lists of all other keys of both indices stay as they are.
\<close>

theorem returned_nodes_share_array:
  assumes run: "calls grow cs (h0, emptyCache) = (h, lc)"
  shows "(configMapNode lc (mapKey namespace name) = Some s \<longrightarrow> i < length (elems h s) \<longrightarrow>
            ConfigMapNodes lc namespace name = s
            \<and> (\<exists>h'. setElem h (ConfigMapNodes lc namespace name) i x = Some h'
                 \<and> elems h' (ConfigMapNodes lc namespace name) = (elems h s)[i := x]
                 \<and> (\<forall>ns' name'. mapKey ns' name' \<noteq> mapKey namespace name \<longrightarrow>
                       elems h' (ConfigMapNodes lc ns' name') = elems h (ConfigMapNodes lc ns' name'))
                 \<and> (\<forall>ns' name'. elems h' (SecretNodes lc ns' name') = elems h (SecretNodes lc ns' name'))))
    \<and> (secretNode lc (mapKey namespace name) = Some s \<longrightarrow> i < length (elems h s) \<longrightarrow>
            SecretNodes lc namespace name = s
            \<and> (\<exists>h'. setElem h (SecretNodes lc namespace name) i x = Some h'
                 \<and> elems h' (SecretNodes lc namespace name) = (elems h s)[i := x]
                 \<and> (\<forall>ns' name'. mapKey ns' name' \<noteq> mapKey namespace name \<longrightarrow>
                       elems h' (SecretNodes lc ns' name') = elems h (SecretNodes lc ns' name'))
                 \<and> (\<forall>ns' name'. elems h' (ConfigMapNodes lc ns' name') = elems h (ConfigMapNodes lc ns' name'))))"
proof -
  let ?M = "case_sum (configMapNode lc) (secretNode lc)"
  have "cacheOK (h, lc)" using calls_ok [OF cacheOK_empty, of grow cs h0] run by simp
  then have ok: "slotsOK h ?M" by (simp add: cacheOK_def)
  have cmn: "\<And>g a b. elems g (ConfigMapNodes lc a b) = listAt g ?M (Inl (mapKey a b))"
    using ConfigMapNodes_nodeLists [of "(g, lc)" for g] by (simp add: nodeLists_def)
  have scn: "\<And>g a b. elems g (SecretNodes lc a b) = listAt g ?M (Inr (mapKey a b))"
    using SecretNodes_nodeLists [of "(g, lc)" for g] by (simp add: nodeLists_def)
  have A: "ConfigMapNodes lc namespace name = s
            \<and> (\<exists>h'. setElem h (ConfigMapNodes lc namespace name) i x = Some h'
                 \<and> elems h' (ConfigMapNodes lc namespace name) = (elems h s)[i := x]
                 \<and> (\<forall>ns' name'. mapKey ns' name' \<noteq> mapKey namespace name \<longrightarrow>
                       elems h' (ConfigMapNodes lc ns' name') = elems h (ConfigMapNodes lc ns' name'))
                 \<and> (\<forall>ns' name'. elems h' (SecretNodes lc ns' name') = elems h (SecretNodes lc ns' name')))"
    if st: "configMapNode lc (mapKey namespace name) = Some s" and i: "i < length (elems h s)"
  proof -
    let ?k = "Inl (mapKey namespace name) :: string + string"
    from st have q: "ConfigMapNodes lc namespace name = s" by (simp add: ConfigMapNodes_def)
    from st have "?M ?k = Some s" by simp
    from slot_write [OF ok this i, of x] obtain h' where
      h': "setElem h s i x = Some h'" "listAt h' ?M ?k = (listAt h ?M ?k)[i := x]"
        "\<forall>y. y \<noteq> ?k \<longrightarrow> listAt h' ?M y = listAt h ?M y" by blast
    from h'(2) st have "elems h' (ConfigMapNodes lc namespace name) = (elems h s)[i := x]"
      by (simp add: cmn listAt_def)
    moreover from h'(3) have "\<forall>ns' name'. mapKey ns' name' \<noteq> mapKey namespace name \<longrightarrow>
          elems h' (ConfigMapNodes lc ns' name') = elems h (ConfigMapNodes lc ns' name')"
      by (simp add: cmn)
    moreover from h'(3) have "\<forall>ns' name'. elems h' (SecretNodes lc ns' name') = elems h (SecretNodes lc ns' name')"
      by (simp add: scn)
    ultimately show ?thesis using q h'(1) by blast
  qed
  have B: "SecretNodes lc namespace name = s
            \<and> (\<exists>h'. setElem h (SecretNodes lc namespace name) i x = Some h'
                 \<and> elems h' (SecretNodes lc namespace name) = (elems h s)[i := x]
                 \<and> (\<forall>ns' name'. mapKey ns' name' \<noteq> mapKey namespace name \<longrightarrow>
                       elems h' (SecretNodes lc ns' name') = elems h (SecretNodes lc ns' name'))
                 \<and> (\<forall>ns' name'. elems h' (ConfigMapNodes lc ns' name') = elems h (ConfigMapNodes lc ns' name')))"
    if st: "secretNode lc (mapKey namespace name) = Some s" and i: "i < length (elems h s)"
  proof -
    let ?k = "Inr (mapKey namespace name) :: string + string"
    from st have q: "SecretNodes lc namespace name = s" by (simp add: SecretNodes_def)
    from st have "?M ?k = Some s" by simp
    from slot_write [OF ok this i, of x] obtain h' where
      h': "setElem h s i x = Some h'" "listAt h' ?M ?k = (listAt h ?M ?k)[i := x]"
        "\<forall>y. y \<noteq> ?k \<longrightarrow> listAt h' ?M y = listAt h ?M y" by blast
    from h'(2) st have "elems h' (SecretNodes lc namespace name) = (elems h s)[i := x]"
      by (simp add: scn listAt_def)
    moreover from h'(3) have "\<forall>ns' name'. mapKey ns' name' \<noteq> mapKey namespace name \<longrightarrow>
          elems h' (SecretNodes lc ns' name') = elems h (SecretNodes lc ns' name')"
      by (simp add: scn)
    moreover from h'(3) have "\<forall>ns' name'. elems h' (ConfigMapNodes lc ns' name') = elems h (ConfigMapNodes lc ns' name')"
      by (simp add: cmn)
    ultimately show ?thesis using q h'(1) by blast
  qed
  from A B show ?thesis by blast
qed

text \<open>
  C8 as stated fails: after \<^verbatim>\<open>AddOrUpdatePod\<close> of a pod on \<open>node1\<close> that mounts \<open>cfg1\<close>,
  the caller assigns \<open>other\<close> to element 0 of the list \<^verbatim>\<open>ConfigMapNodes\<close> returned, and
  the cache's list for \<open>cfg1\<close> is \<open>other\<close> from then on.
\<close>

theorem returned_nodes_not_snapshot:
  "elems (fst exampleState) (ConfigMapNodes (snd exampleState) ''ns'' ''cfg1'') = [''node1'']
   \<and> setElem (fst exampleState) (ConfigMapNodes (snd exampleState) ''ns'' ''cfg1'') 0 ''other''
       = Some [[''other''], [''node1'']]
   \<and> elems [[''other''], [''node1'']] (ConfigMapNodes (snd exampleState) ''ns'' ''cfg1'') = [''other'']"
  by (simp add: exampleState_eq ConfigMapNodes_def mapKey_def)

theorem returned_nodes_share_array_witness:
  "calls (\<lambda>c. 2 * c) [CallAddOrUpdatePod (examplePod ''node1'')] ([], emptyCache) = exampleState
   \<and> configMapNode (snd exampleState) (mapKey ''ns'' ''cfg1'') = Some (Slice 0 1 1)
   \<and> secretNode (snd exampleState) (mapKey ''ns'' ''sec3'') = Some (Slice 1 1 1)
   \<and> (0::nat) < length (elems (fst exampleState) (Slice 0 1 1))
   \<and> (0::nat) < length (elems (fst exampleState) (Slice 1 1 1))
   \<and> ConfigMapNodes (snd exampleState) ''ns'' ''cfg1'' = Slice 0 1 1
   \<and> SecretNodes (snd exampleState) ''ns'' ''sec3'' = Slice 1 1 1"
proof -
  have run: "calls (\<lambda>c. 2 * c) [CallAddOrUpdatePod (examplePod ''node1'')] ([], emptyCache)
      = (fst exampleState, snd exampleState)"
    by (simp add: exampleState_def)
  have a: "configMapNode (snd exampleState) (mapKey ''ns'' ''cfg1'') = Some (Slice 0 1 1)"
    by (simp add: exampleState_eq mapKey_def)
  have b: "secretNode (snd exampleState) (mapKey ''ns'' ''sec3'') = Some (Slice 1 1 1)"
    by (simp add: exampleState_eq mapKey_def)
  have c: "(0::nat) < length (elems (fst exampleState) (Slice 0 1 1))"
    by (simp add: exampleState_eq)
  have d: "(0::nat) < length (elems (fst exampleState) (Slice 1 1 1))"
    by (simp add: exampleState_eq)
  from returned_nodes_share_array [OF run, of "''ns''" "''cfg1''" "Slice 0 1 1" 0] a c
  have e: "ConfigMapNodes (snd exampleState) ''ns'' ''cfg1'' = Slice 0 1 1" by blast
  from returned_nodes_share_array [OF run, of "''ns''" "''sec3''" "Slice 1 1 1" 0] b d
  have f: "SecretNodes (snd exampleState) ''ns'' ''sec3'' = Slice 1 1 1" by blast
  from run a b c d e f show ?thesis by simp
qed

subsection \<open>What the endpoints store keeps\<close>

lemma sliceValue_other_array: "p \<notin> arrayOf s \<Longrightarrow> sliceValue (h[p := a]) s = sliceValue h s"
  by (cases s) (simp_all add: sliceValue_def)

lemma mapValue_other_map: "r \<noteq> Some q \<Longrightarrow> mapValue (ms[q := m]) r = mapValue ms r"
  by (cases r) (simp_all add: mapValue_def)

text \<open>
  C9, as amended. \<^verbatim>\<open>AddOrUpdateEndpoints\<close> stores a copy of the struct, which shares the
  \<^verbatim>\<open>Subsets\<close> array and the metadata maps with the caller's object. The stored snapshot
  has the fields of the object as they were when it was stored, so its value is the
  object's value then; a later write to an array or to a map that the stored object does
  not point to leaves that value unchanged; an assignment to element \<open>i\<close> of the caller's
  \<^verbatim>\<open>Subsets\<close> replaces element \<open>i\<close> of the stored snapshot's subsets.
\<close>

theorem stored_endpoints_shallow_copy:
  fixes lc :: "'m LocationCache" and objs :: "'s objects" and e :: "'m Endpoints"
  defines "k \<equiv> mapKey (Namespace (ObjectMeta e)) (Name (ObjectMeta e))"
  shows "endpoints (AddOrUpdateEndpoints lc e) k = Some e
    \<and> storedValue objs (AddOrUpdateEndpoints lc e) k = Some (deepValue objs e)
    \<and> (p \<notin> arrayOf (Subsets e) \<longrightarrow>
         storedValue (objs\<lparr>subsetArrays := (subsetArrays objs)[p := a]\<rparr>) (AddOrUpdateEndpoints lc e) k
           = Some (deepValue objs e))
    \<and> (Labels (ObjectMeta e) \<noteq> Some q \<and> Annotations (ObjectMeta e) \<noteq> Some q \<longrightarrow>
         storedValue (objs\<lparr>stringMaps := (stringMaps objs)[q := m]\<rparr>) (AddOrUpdateEndpoints lc e) k
           = Some (deepValue objs e))
    \<and> (wfSlice (subsetArrays objs) (Subsets e) \<and> i < length (elems (subsetArrays objs) (Subsets e)) \<longrightarrow>
         (\<exists>objs'. setSubset objs e i v = Some objs'
            \<and> storedValue objs' (AddOrUpdateEndpoints lc e) k
                = Some ((deepValue objs e)\<lparr>vSubsets := Some ((elems (subsetArrays objs) (Subsets e))[i := v])\<rparr>)))"
proof -
  have 1: "endpoints (AddOrUpdateEndpoints lc e) k = Some e"
    by (simp add: AddOrUpdateEndpoints_def k_def)
  then have sv: "\<And>o'. storedValue o' (AddOrUpdateEndpoints lc e) k = Some (deepValue o' e)"
    by (simp add: storedValue_def)
  have 3: "p \<notin> arrayOf (Subsets e) \<longrightarrow>
         storedValue (objs\<lparr>subsetArrays := (subsetArrays objs)[p := a]\<rparr>) (AddOrUpdateEndpoints lc e) k
           = Some (deepValue objs e)"
    by (simp add: sv deepValue_def sliceValue_other_array)
  have 4: "Labels (ObjectMeta e) \<noteq> Some q \<and> Annotations (ObjectMeta e) \<noteq> Some q \<longrightarrow>
         storedValue (objs\<lparr>stringMaps := (stringMaps objs)[q := m]\<rparr>) (AddOrUpdateEndpoints lc e) k
           = Some (deepValue objs e)"
    by (simp add: sv deepValue_def mapValue_other_map)
  have 5: "wfSlice (subsetArrays objs) (Subsets e) \<and> i < length (elems (subsetArrays objs) (Subsets e)) \<longrightarrow>
         (\<exists>objs'. setSubset objs e i v = Some objs'
            \<and> storedValue objs' (AddOrUpdateEndpoints lc e) k
                = Some ((deepValue objs e)\<lparr>vSubsets := Some ((elems (subsetArrays objs) (Subsets e))[i := v])\<rparr>))"
  proof
    assume a: "wfSlice (subsetArrays objs) (Subsets e) \<and> i < length (elems (subsetArrays objs) (Subsets e))"
    show "\<exists>objs'. setSubset objs e i v = Some objs'
            \<and> storedValue objs' (AddOrUpdateEndpoints lc e) k
                = Some ((deepValue objs e)\<lparr>vSubsets := Some ((elems (subsetArrays objs) (Subsets e))[i := v])\<rparr>)"
    proof (cases "Subsets e")
      case NilSlice
      with a show ?thesis by simp
    next
      case (Slice p n c)
      with a have "p < length (subsetArrays objs)" "i < n" by simp_all
      with Slice show ?thesis
        by (simp add: setSubset_def sv deepValue_def sliceValue_def take_update_swap)
    qed
  qed
  from 1 sv [of objs] 3 4 5 show ?thesis by blast
qed

text \<open>
  C9 as stated fails: after storing the example object, the caller assigns to
  \<^verbatim>\<open>Subsets[0]\<close> of its object, or to \<^verbatim>\<open>Labels["app"]\<close>, and the stored snapshot's
  subsets, or labels, change with it.
\<close>

theorem stored_endpoints_not_deep_copy:
  "storedValue exampleObjects (AddOrUpdateEndpoints emptyCache exampleEndpoints) ''ns/svc''
     = Some \<lparr>vName = ''svc'', vNamespace = ''ns'', vResourceVersion = ''7'', vGeneration = 1,
             vLabels = Some [''app'' \<mapsto> ''web''], vAnnotations = None, vOtherMeta = (),
             vSubsets = Some [''10.0.0.1'']\<rparr>
   \<and> setSubset exampleObjects exampleEndpoints 0 ''10.9.9.9''
     = Some (exampleObjects\<lparr>subsetArrays := [[''10.9.9.9''], [''10.0.0.1'']]\<rparr>)
   \<and> storedValue (exampleObjects\<lparr>subsetArrays := [[''10.9.9.9''], [''10.0.0.1'']]\<rparr>)
        (AddOrUpdateEndpoints emptyCache exampleEndpoints) ''ns/svc''
     = Some \<lparr>vName = ''svc'', vNamespace = ''ns'', vResourceVersion = ''7'', vGeneration = 1,
             vLabels = Some [''app'' \<mapsto> ''web''], vAnnotations = None, vOtherMeta = (),
             vSubsets = Some [''10.9.9.9'']\<rparr>
   \<and> setLabel exampleObjects exampleEndpoints ''app'' ''db''
     = Some (exampleObjects\<lparr>stringMaps := [[''app'' \<mapsto> ''db''], [''app'' \<mapsto> ''web''], [''checked'' \<mapsto> ''now'']]\<rparr>)
   \<and> storedValue (exampleObjects\<lparr>stringMaps := [[''app'' \<mapsto> ''db''], [''app'' \<mapsto> ''web''], [''checked'' \<mapsto> ''now'']]\<rparr>)
        (AddOrUpdateEndpoints emptyCache exampleEndpoints) ''ns/svc''
     = Some \<lparr>vName = ''svc'', vNamespace = ''ns'', vResourceVersion = ''7'', vGeneration = 1,
             vLabels = Some [''app'' \<mapsto> ''db''], vAnnotations = None, vOtherMeta = (),
             vSubsets = Some [''10.0.0.1'']\<rparr>"
  by (simp add: storedValue_def AddOrUpdateEndpoints_def emptyCache_def mapKey_def deepValue_def
        mapValue_def sliceValue_def setSubset_def setLabel_def exampleEndpoints_def exampleObjects_def)

theorem stored_endpoints_shallow_copy_witness:
  "1 \<notin> arrayOf (Subsets exampleEndpoints)
   \<and> Labels (ObjectMeta exampleEndpoints) \<noteq> Some 2 \<and> Annotations (ObjectMeta exampleEndpoints) \<noteq> Some 2
   \<and> wfSlice (subsetArrays exampleObjects) (Subsets exampleEndpoints)
   \<and> 0 < length (elems (subsetArrays exampleObjects) (Subsets exampleEndpoints))
   \<and> storedValue (exampleObjects\<lparr>subsetArrays := (subsetArrays exampleObjects)[1 := [''10.9.9.9'']]\<rparr>)
        (AddOrUpdateEndpoints emptyCache exampleEndpoints)
        (mapKey (Namespace (ObjectMeta exampleEndpoints)) (Name (ObjectMeta exampleEndpoints)))
      = Some (deepValue exampleObjects exampleEndpoints)
   \<and> storedValue (exampleObjects\<lparr>stringMaps := (stringMaps exampleObjects)[2 := Map.empty]\<rparr>)
        (AddOrUpdateEndpoints emptyCache exampleEndpoints)
        (mapKey (Namespace (ObjectMeta exampleEndpoints)) (Name (ObjectMeta exampleEndpoints)))
      = Some (deepValue exampleObjects exampleEndpoints)"
proof -
  have a: "1 \<notin> arrayOf (Subsets exampleEndpoints)" by (simp add: exampleEndpoints_def)
  have b: "Labels (ObjectMeta exampleEndpoints) \<noteq> Some 2 \<and> Annotations (ObjectMeta exampleEndpoints) \<noteq> Some 2"
    by (simp add: exampleEndpoints_def)
  have c: "wfSlice (subsetArrays exampleObjects) (Subsets exampleEndpoints)"
    by (simp add: exampleEndpoints_def exampleObjects_def)
  have d: "0 < length (elems (subsetArrays exampleObjects) (Subsets exampleEndpoints))"
    by (simp add: exampleEndpoints_def exampleObjects_def)
  from stored_endpoints_shallow_copy [where lc = emptyCache and e = exampleEndpoints and objs = exampleObjects and p = 1
      and a = "[''10.9.9.9'']" and q = 2 and m = Map.empty and i = 0 and v = "''10.9.9.9''"]
    a b c d show ?thesis by blast
qed

subsection \<open>Calls one after another, and calls that overlap\<close>

lemma schedule_append:
  "schedule grow (xs @ ys) cfg = schedule grow ys (schedule grow xs cfg)"
  by (induction xs arbitrary: cfg) (auto split: prod.splits)

lemma exampleEnvPod_names: "PodConfigMapsAndSecrets (exampleEnvPod node) = ([''cfg1''], [])"
  by (simp add: exampleEnvPod_def PodConfigMapsAndSecrets_def envVar_def)

lemma spawn_exampleEnvPod:
  "spawn (exampleEnvPod node)
     = \<lparr>gNamespace = ''ns'', gNode = node, gConfigMaps = [''cfg1''], gSecrets = [], gPhase = AtLoad\<rparr>"
  by (simp add: spawn_def exampleEnvPod_names) (simp add: exampleEnvPod_def)

lemma three_steps_configMap:
  assumes "i < length gs" and "gs ! i = g" and "gConfigMaps g = c # rest" and "gPhase g = AtLoad"
  shows "schedule grow [i, i, i] ((h, lc), gs)
     = ((fst (addNode grow (gNode g) (h, configMapNode lc) (mapKey (gNamespace g) c)),
         lc\<lparr>configMapNode := snd (addNode grow (gNode g) (h, configMapNode lc) (mapKey (gNamespace g) c))\<rparr>),
        gs[i := g\<lparr>gConfigMaps := rest\<rparr>])"
  using assms by (cases g) (simp add: gstep_def addNode_slotAdd split: prod.splits)

lemma three_steps_secret:
  assumes "i < length gs" and "gs ! i = g"
    and "gConfigMaps g = []" and "gSecrets g = c # rest" and "gPhase g = AtLoad"
  shows "schedule grow [i, i, i] ((h, lc), gs)
     = ((fst (addNode grow (gNode g) (h, secretNode lc) (mapKey (gNamespace g) c)),
         lc\<lparr>secretNode := snd (addNode grow (gNode g) (h, secretNode lc) (mapKey (gNamespace g) c))\<rparr>),
        gs[i := g\<lparr>gSecrets := rest\<rparr>])"
  using assms by (cases g) (simp add: gstep_def addNode_slotAdd split: prod.splits)

lemma replicate_three: "replicate (3 * Suc n) i = [i, i, i] @ replicate (3 * n) i"
  by (simp add: numeral_3_eq_3)

lemma run_alone_secrets:
  "i < length gs \<Longrightarrow> gs ! i = g \<Longrightarrow> gConfigMaps g = [] \<Longrightarrow> gSecrets g = secs
   \<Longrightarrow> gPhase g = AtLoad \<Longrightarrow>
   schedule grow (replicate (3 * length secs) i) ((h, lc), gs)
     = ((fst (addNodes grow (gNamespace g) (gNode g) secs (h, secretNode lc)),
         lc\<lparr>secretNode := snd (addNodes grow (gNamespace g) (gNode g) secs (h, secretNode lc))\<rparr>),
        gs[i := g\<lparr>gSecrets := []\<rparr>])"
proof (induction secs arbitrary: g gs h lc)
  case Nil
  then have "g\<lparr>gSecrets := []\<rparr> = gs ! i" by (cases g) auto
  then show ?case by simp
next
  case (Cons c rest)
  let ?a = "addNode grow (gNode g) (h, secretNode lc) (mapKey (gNamespace g) c)"
  let ?g = "g\<lparr>gSecrets := rest\<rparr>"
  let ?gs = "gs[i := ?g]"
  have s3: "schedule grow [i, i, i] ((h, lc), gs) = ((fst ?a, lc\<lparr>secretNode := snd ?a\<rparr>), ?gs)"
    by (rule three_steps_secret) (use Cons.prems in auto)
  have "schedule grow (replicate (3 * length rest) i) ((fst ?a, lc\<lparr>secretNode := snd ?a\<rparr>), ?gs)
     = ((fst (addNodes grow (gNamespace ?g) (gNode ?g) rest (fst ?a, secretNode (lc\<lparr>secretNode := snd ?a\<rparr>))),
         lc\<lparr>secretNode := snd ?a\<rparr>\<lparr>secretNode := snd (addNodes grow (gNamespace ?g) (gNode ?g) rest
              (fst ?a, secretNode (lc\<lparr>secretNode := snd ?a\<rparr>)))\<rparr>),
        ?gs[i := ?g\<lparr>gSecrets := []\<rparr>])"
    by (rule Cons.IH) (use Cons.prems in auto)
  note ih = this
  have "schedule grow (replicate (3 * length (c # rest)) i) ((h, lc), gs)
      = schedule grow (replicate (3 * length rest) i) (schedule grow [i, i, i] ((h, lc), gs))"
    by (simp only: length_Cons replicate_three schedule_append)
  also have "\<dots> = schedule grow (replicate (3 * length rest) i)
      ((fst ?a, lc\<lparr>secretNode := snd ?a\<rparr>), ?gs)"
    by (simp only: s3)
  also note ih
  also have "((fst (addNodes grow (gNamespace ?g) (gNode ?g) rest (fst ?a, secretNode (lc\<lparr>secretNode := snd ?a\<rparr>))),
         lc\<lparr>secretNode := snd ?a\<rparr>\<lparr>secretNode := snd (addNodes grow (gNamespace ?g) (gNode ?g) rest
              (fst ?a, secretNode (lc\<lparr>secretNode := snd ?a\<rparr>)))\<rparr>),
        ?gs[i := ?g\<lparr>gSecrets := []\<rparr>])
     = ((fst (addNodes grow (gNamespace g) (gNode g) (c # rest) (h, secretNode lc)),
         lc\<lparr>secretNode := snd (addNodes grow (gNamespace g) (gNode g) (c # rest) (h, secretNode lc))\<rparr>),
        gs[i := g\<lparr>gSecrets := []\<rparr>])"
    by simp
  finally show ?case .
qed

lemma run_alone_configMaps:
  "i < length gs \<Longrightarrow> gs ! i = g \<Longrightarrow> gConfigMaps g = cms \<Longrightarrow> gPhase g = AtLoad \<Longrightarrow>
   schedule grow (replicate (3 * length cms) i) ((h, lc), gs)
     = ((fst (addNodes grow (gNamespace g) (gNode g) cms (h, configMapNode lc)),
         lc\<lparr>configMapNode := snd (addNodes grow (gNamespace g) (gNode g) cms (h, configMapNode lc))\<rparr>),
        gs[i := g\<lparr>gConfigMaps := []\<rparr>])"
proof (induction cms arbitrary: g gs h lc)
  case Nil
  then have "g\<lparr>gConfigMaps := []\<rparr> = gs ! i" by (cases g) auto
  then show ?case by simp
next
  case (Cons c rest)
  let ?a = "addNode grow (gNode g) (h, configMapNode lc) (mapKey (gNamespace g) c)"
  let ?g = "g\<lparr>gConfigMaps := rest\<rparr>"
  let ?gs = "gs[i := ?g]"
  have s3: "schedule grow [i, i, i] ((h, lc), gs) = ((fst ?a, lc\<lparr>configMapNode := snd ?a\<rparr>), ?gs)"
    by (rule three_steps_configMap) (use Cons.prems in auto)
  have "schedule grow (replicate (3 * length rest) i) ((fst ?a, lc\<lparr>configMapNode := snd ?a\<rparr>), ?gs)
     = ((fst (addNodes grow (gNamespace ?g) (gNode ?g) rest (fst ?a, configMapNode (lc\<lparr>configMapNode := snd ?a\<rparr>))),
         lc\<lparr>configMapNode := snd ?a\<rparr>\<lparr>configMapNode := snd (addNodes grow (gNamespace ?g) (gNode ?g) rest
              (fst ?a, configMapNode (lc\<lparr>configMapNode := snd ?a\<rparr>)))\<rparr>),
        ?gs[i := ?g\<lparr>gConfigMaps := []\<rparr>])"
    by (rule Cons.IH) (use Cons.prems in auto)
  note ih = this
  have "schedule grow (replicate (3 * length (c # rest)) i) ((h, lc), gs)
      = schedule grow (replicate (3 * length rest) i) (schedule grow [i, i, i] ((h, lc), gs))"
    by (simp only: length_Cons replicate_three schedule_append)
  also have "\<dots> = schedule grow (replicate (3 * length rest) i)
      ((fst ?a, lc\<lparr>configMapNode := snd ?a\<rparr>), ?gs)"
    by (simp only: s3)
  also note ih
  also have "((fst (addNodes grow (gNamespace ?g) (gNode ?g) rest (fst ?a, configMapNode (lc\<lparr>configMapNode := snd ?a\<rparr>))),
         lc\<lparr>configMapNode := snd ?a\<rparr>\<lparr>configMapNode := snd (addNodes grow (gNamespace ?g) (gNode ?g) rest
              (fst ?a, configMapNode (lc\<lparr>configMapNode := snd ?a\<rparr>)))\<rparr>),
        ?gs[i := ?g\<lparr>gConfigMaps := []\<rparr>])
     = ((fst (addNodes grow (gNamespace g) (gNode g) (c # rest) (h, configMapNode lc)),
         lc\<lparr>configMapNode := snd (addNodes grow (gNamespace g) (gNode g) (c # rest) (h, configMapNode lc))\<rparr>),
        gs[i := g\<lparr>gConfigMaps := []\<rparr>])"
    by simp
  finally show ?case .
qed

lemma run_alone:
  assumes i: "i < length gs" and g: "gs ! i = spawn pod"
  shows "schedule grow
      (replicate (3 * (length (fst (PodConfigMapsAndSecrets pod))
                       + length (snd (PodConfigMapsAndSecrets pod)))) i)
      (st, gs)
     = (AddOrUpdatePod grow st pod, gs[i := (spawn pod)\<lparr>gConfigMaps := [], gSecrets := []\<rparr>])"
proof -
  obtain h lc where st: "st = (h, lc)" by (cases st)
  obtain cms secs where ps: "PodConfigMapsAndSecrets pod = (cms, secs)"
    by (cases "PodConfigMapsAndSecrets pod")
  let ?g = "spawn pod"
  let ?a = "addNodes grow (podNamespace pod) (NodeName pod) cms (h, configMapNode lc)"
  let ?lc1 = "lc\<lparr>configMapNode := snd ?a\<rparr>"
  let ?g1 = "?g\<lparr>gConfigMaps := []\<rparr>"
  have sp: "gConfigMaps ?g = cms" "gSecrets ?g = secs" "gPhase ?g = AtLoad"
      "gNamespace ?g = podNamespace pod" "gNode ?g = NodeName pod"
    by (simp_all add: spawn_def ps)
  have 1: "schedule grow (replicate (3 * length cms) i) ((h, lc), gs) = ((fst ?a, ?lc1), gs[i := ?g1])"
    using run_alone_configMaps [OF i g sp(1) sp(3), of grow h lc] sp by simp
  have 2: "schedule grow (replicate (3 * length secs) i) ((fst ?a, ?lc1), gs[i := ?g1])
     = ((fst (addNodes grow (podNamespace pod) (NodeName pod) secs (fst ?a, secretNode lc)),
         ?lc1\<lparr>secretNode := snd (addNodes grow (podNamespace pod) (NodeName pod) secs (fst ?a, secretNode lc))\<rparr>),
        gs[i := ?g1\<lparr>gSecrets := []\<rparr>])"
    using run_alone_secrets [of i "gs[i := ?g1]" ?g1 secs grow "fst ?a" ?lc1] i sp by simp
  have "replicate (3 * (length cms + length secs)) i
      = replicate (3 * length cms) i @ replicate (3 * length secs) i"
    by (simp add: replicate_add [symmetric] distrib_left)
  with 1 2 show ?thesis
    by (simp add: st ps schedule_append AddOrUpdatePod_def split: prod.splits)
qed

lemma set_withNode: "set (withNode node xs) = insert node (set xs)"
  by (auto simp: withNode_def)

lemma adds_keep_nodes:
  assumes refs: "\<forall>p \<in> set ps. podNamespace p = namespace \<and> referencesConfigMap p c"
  shows "cacheOK st \<Longrightarrow>
     cacheOK (calls grow (map CallAddOrUpdatePod ps) st)
     \<and> set (nodeLists st (Inl (mapKey namespace c))) \<union> NodeName ` set ps
         \<subseteq> set (nodeLists (calls grow (map CallAddOrUpdatePod ps) st) (Inl (mapKey namespace c)))"
  using refs
proof (induction ps arbitrary: st)
  case Nil
  then show ?case by simp
next
  case (Cons p rest)
  let ?y = "Inl (mapKey namespace c) :: string + string"
  let ?st1 = "AddOrUpdatePod grow st p"
  from Cons.prems have p: "podNamespace p = namespace" "referencesConfigMap p c"
    and rest: "\<forall>p \<in> set rest. podNamespace p = namespace \<and> referencesConfigMap p c" by auto
  from p(2) have "c \<in> set (fst (PodConfigMapsAndSecrets p))" by (simp add: extractor_configMaps)
  with p(1) have y: "?y \<in> Inl ` mapKey (podNamespace p) ` set (fst (PodConfigMapsAndSecrets p))
             \<union> Inr ` mapKey (podNamespace p) ` set (snd (PodConfigMapsAndSecrets p))" by blast
  have ok1: "cacheOK ?st1" by (rule AddOrUpdatePod_ok(1) [OF Cons.prems(1)])
  have l1: "set (nodeLists ?st1 ?y) = insert (NodeName p) (set (nodeLists st ?y))"
    using AddOrUpdatePod_ok(2) [OF Cons.prems(1), of grow p ?y] y by (simp add: set_withNode)
  from Cons.IH [OF ok1 rest] l1 show ?case by auto
qed

text \<open>
  C3, as amended. A goroutine that runs all the steps of its call with no step of another
  goroutine in between does what \<^verbatim>\<open>AddOrUpdatePod\<close> does, whatever the other goroutines
  are. And when the calls for pods that all reference config map \<open>c\<close> in one
  namespace run one after another, in any order and from any state reached from the
  empty cache, the list \<^verbatim>\<open>ConfigMapNodes\<close> returns for \<open>c\<close> holds the node names of
  all of them.
\<close>

theorem sequential_adds_keep_all_nodes:
  fixes st :: "arrays \<times> 'm LocationCache" and lc :: "'m LocationCache" and cs :: "'m cacheCall list"
  shows "(i < length gs \<and> gs ! i = spawn pod \<longrightarrow>
            schedule grow
               (replicate (3 * (length (fst (PodConfigMapsAndSecrets pod))
                                + length (snd (PodConfigMapsAndSecrets pod)))) i)
               (st, gs)
             = (AddOrUpdatePod grow st pod,
                gs[i := (spawn pod)\<lparr>gConfigMaps := [], gSecrets := []\<rparr>]))
    \<and> (calls grow cs (h0, emptyCache) = (h, lc) \<longrightarrow>
         (\<forall>p \<in> set ps. podNamespace p = namespace \<and> referencesConfigMap p c) \<longrightarrow>
         calls grow (map CallAddOrUpdatePod ps) (h, lc) = (h', lc') \<longrightarrow>
         NodeName ` set ps \<subseteq> set (elems h' (ConfigMapNodes lc' namespace c)))"
proof -
  have 1: "i < length gs \<and> gs ! i = spawn pod \<longrightarrow>
            schedule grow
               (replicate (3 * (length (fst (PodConfigMapsAndSecrets pod))
                                + length (snd (PodConfigMapsAndSecrets pod)))) i)
               (st, gs)
             = (AddOrUpdatePod grow st pod,
                gs[i := (spawn pod)\<lparr>gConfigMaps := [], gSecrets := []\<rparr>])"
    using run_alone by blast
  have 2: "NodeName ` set ps \<subseteq> set (elems h' (ConfigMapNodes lc' namespace c))"
    if run: "calls grow cs (h0, emptyCache) = (h, lc)"
      and refs: "\<forall>p \<in> set ps. podNamespace p = namespace \<and> referencesConfigMap p c"
      and seq: "calls grow (map CallAddOrUpdatePod ps) (h, lc) = (h', lc')"
  proof -
    have ok: "cacheOK (h, lc)" using calls_ok [OF cacheOK_empty, of grow cs h0] run by simp
    from adds_keep_nodes [OF refs ok, of grow] seq
    have "NodeName ` set ps \<subseteq> set (nodeLists (h', lc') (Inl (mapKey namespace c)))" by auto
    then show ?thesis using ConfigMapNodes_nodeLists [of "(h', lc')"] by simp
  qed
  from 1 2 show ?thesis by blast
qed

text \<open>
  C3 as stated fails. Two goroutines add pods on \<open>n1\<close> and \<open>n2\<close> that both reference
  \<open>cfg1\<close>, to the empty cache. Both \<^verbatim>\<open>Load\<close> before either \<^verbatim>\<open>Store\<close>s: each finds no
  entry and makes a list of its own node, the second \<^verbatim>\<open>Store\<close> replaces the first, and
  when both calls have returned the list for \<open>cfg1\<close> is \<open>n2\<close> alone.
\<close>

theorem concurrent_insert_lost:
  "schedule (\<lambda>c. 2 * c) [0, 1, 0, 0, 1, 1]
      (([], emptyCache :: unit LocationCache), [spawn (exampleEnvPod ''n1''), spawn (exampleEnvPod ''n2'')])
     = (([[''n1''], [''n2'']], emptyCache\<lparr>configMapNode := [''ns/cfg1'' \<mapsto> Slice 1 1 1]\<rparr>),
        [(spawn (exampleEnvPod ''n1''))\<lparr>gConfigMaps := []\<rparr>,
         (spawn (exampleEnvPod ''n2''))\<lparr>gConfigMaps := []\<rparr>])
   \<and> finished ((spawn (exampleEnvPod ''n1''))\<lparr>gConfigMaps := []\<rparr>)
   \<and> finished ((spawn (exampleEnvPod ''n2''))\<lparr>gConfigMaps := []\<rparr>)
   \<and> elems [[''n1''], [''n2'']]
        (ConfigMapNodes (emptyCache\<lparr>configMapNode := [''ns/cfg1'' \<mapsto> Slice 1 1 1]\<rparr> :: unit LocationCache)
           ''ns'' ''cfg1'') = [''n2'']
   \<and> ''n1'' \<notin> set (elems [[''n1''], [''n2'']]
        (ConfigMapNodes (emptyCache\<lparr>configMapNode := [''ns/cfg1'' \<mapsto> Slice 1 1 1]\<rparr> :: unit LocationCache)
           ''ns'' ''cfg1''))"
  by (simp add: spawn_exampleEnvPod gstep_def slotAdd_def mapKey_def emptyCache_def
        finished_def ConfigMapNodes_def)

theorem sequential_adds_keep_all_nodes_witness:
  "(0::nat) < length [spawn (exampleEnvPod ''n1''), spawn (exampleEnvPod ''n2'')]
   \<and> [spawn (exampleEnvPod ''n1''), spawn (exampleEnvPod ''n2'')] ! 0 = spawn (exampleEnvPod ''n1'')
   \<and> calls (\<lambda>c. 2 * c) [] ([], emptyCache) = ([], emptyCache :: unit LocationCache)
   \<and> podNamespace (exampleEnvPod ''n1'') = ''ns'' \<and> referencesConfigMap (exampleEnvPod ''n1'') ''cfg1''
   \<and> podNamespace (exampleEnvPod ''n2'') = ''ns'' \<and> referencesConfigMap (exampleEnvPod ''n2'') ''cfg1''
   \<and> NodeName ` set [exampleEnvPod ''n1'', exampleEnvPod ''n2'']
       \<subseteq> set (elems
             (fst (calls (\<lambda>c. 2 * c) (map CallAddOrUpdatePod [exampleEnvPod ''n1'', exampleEnvPod ''n2''])
                    ([], emptyCache :: unit LocationCache)))
             (ConfigMapNodes
                (snd (calls (\<lambda>c. 2 * c) (map CallAddOrUpdatePod [exampleEnvPod ''n1'', exampleEnvPod ''n2''])
                       ([], emptyCache :: unit LocationCache)))
                ''ns'' ''cfg1''))"
proof -
  let ?ps = "[exampleEnvPod ''n1'', exampleEnvPod ''n2'']"
  let ?st' = "calls (\<lambda>c. 2 * c) (map CallAddOrUpdatePod ?ps) ([], emptyCache :: unit LocationCache)"
  have a: "(0::nat) < length [spawn (exampleEnvPod ''n1''), spawn (exampleEnvPod ''n2'')]
      \<and> [spawn (exampleEnvPod ''n1''), spawn (exampleEnvPod ''n2'')] ! 0 = spawn (exampleEnvPod ''n1'')"
    by simp
  have b: "calls (\<lambda>c. 2 * c) [] ([], emptyCache) = ([], emptyCache :: unit LocationCache)" by simp
  have c: "\<forall>p \<in> set ?ps. podNamespace p = ''ns'' \<and> referencesConfigMap p ''cfg1''"
    by (simp add: exampleEnvPod_def referencesConfigMap_def containerReferences_def)
  have d: "calls (\<lambda>c. 2 * c) (map CallAddOrUpdatePod ?ps) ([], emptyCache) = (fst ?st', snd ?st')"
    by simp
  from sequential_adds_keep_all_nodes [where cs = "[]" and grow = "\<lambda>c. 2 * c" and ?h0.0 = "[]"
      and h = "[]" and lc = "emptyCache :: unit LocationCache" and ps = ?ps and namespace = "''ns''"
      and c = "''cfg1''" and h' = "fst ?st'" and lc' = "snd ?st'"] b c d
  have "NodeName ` set ?ps \<subseteq> set (elems (fst ?st') (ConfigMapNodes (snd ?st') ''ns'' ''cfg1''))"
    by blast
  moreover from c have "podNamespace (exampleEnvPod ''n1'') = ''ns'' \<and> referencesConfigMap (exampleEnvPod ''n1'') ''cfg1''
      \<and> podNamespace (exampleEnvPod ''n2'') = ''ns'' \<and> referencesConfigMap (exampleEnvPod ''n2'') ''cfg1''"
    by simp
  ultimately show ?thesis using a b by blast
qed

end
